theory Spec2Isabelle
  imports Main "HOL-Library.Sublist"
begin

section \<open>Strings and characters\<close>

text \<open>
  A JavaScript string is modelled as a list of code units, and a code unit as a \<^typ>\<open>char\<close>:
  the model covers the code units below 256. Every character the scripts' patterns name is
  ASCII, so nothing the patterns test is lost.
\<close>

definition dquote :: char where
  "dquote = CHR 0x22"

definition squote :: char where
  "squote = CHR 0x27"

definition is_quote :: "char \<Rightarrow> bool" where
  \<comment> \<open>the class \<open>["']\<close>\<close>
  "is_quote c = (c = dquote \<or> c = squote)"

definition is_space :: "char \<Rightarrow> bool" where
  \<comment> \<open>the class \<open>\<bsol>s\<close>, which is also what \<open>trim\<close> and \<open>Number\<close> strip: TAB, LF, VT, FF, CR,
      SPACE and NBSP are its members below 256\<close>
  "is_space c = (c \<in> set [CHR 0x09, CHR 0x0A, CHR 0x0B, CHR 0x0C, CHR 0x0D, CHR '' '', CHR 0xA0])"

definition is_digit :: "char \<Rightarrow> bool" where
  "is_digit c = (c \<in> set ''0123456789'')"

definition digit_val :: "char \<Rightarrow> nat" where
  "digit_val c = of_char c - 48"

definition canonicalize :: "char \<Rightarrow> char" where
  \<comment> \<open>what the \<open>i\<close> flag compares: the upper-case form of a code unit. The patterns hold
      ASCII characters only, and a code unit of 128 or more never canonicalises to an ASCII
      one, so that only the case of \<open>a\<close>..\<open>z\<close> matters.\<close>
  "canonicalize c =
     (case map_of (zip ''abcdefghijklmnopqrstuvwxyz'' ''ABCDEFGHIJKLMNOPQRSTUVWXYZ'') c of
        Some u \<Rightarrow> u
      | None \<Rightarrow> c)"

fun lit_ci_at :: "string \<Rightarrow> string \<Rightarrow> bool" where
  \<comment> \<open>a literal of a pattern with the \<open>i\<close> flag, matched at the start of the input\<close>
  "lit_ci_at [] s = True"
| "lit_ci_at (p # ps) [] = False"
| "lit_ci_at (p # ps) (c # cs) = (canonicalize c = canonicalize p \<and> lit_ci_at ps cs)"

fun split_on :: "char \<Rightarrow> string \<Rightarrow> string list" where
  \<comment> \<open>\<open>String.prototype.split\<close> with a one-character separator\<close>
  "split_on d [] = [[]]"
| "split_on d (c # cs) =
     (if c = d then [] # split_on d cs
      else (case split_on d cs of [] \<Rightarrow> [[c]] | p # ps \<Rightarrow> (c # p) # ps))"

definition trim :: "string \<Rightarrow> string" where
  "trim s = rev (dropWhile is_space (rev (dropWhile is_space s)))"

section \<open>Numbers\<close>

text \<open>
  \<open>calculateNextVersion\<close> converts the parts of a version with \<open>Number\<close>, adds one and
  prints the result in a template literal. The values of the model are \<open>undefined\<close> (a
  missing part), \<open>NaN\<close> and the integers from 0 to \<open>2^53\<close>, on which the arithmetic of
  doubles is exact. \<open>Number_js\<close> is \<open>None\<close> on a numeric literal that denotes any other
  number (signed, fractional, with an exponent or a radix prefix, or above \<open>2^53 - 1\<close>,
  which is 9007199254740991): the model does not say what the code computes there.
\<close>

datatype jsval = Undefined | NaN | Num nat

definition is_hex_digit :: "char \<Rightarrow> bool" where
  "is_hex_digit c = (c \<in> set ''0123456789abcdefABCDEF'')"

definition is_oct_digit :: "char \<Rightarrow> bool" where
  "is_oct_digit c = (c \<in> set ''01234567'')"

definition is_bin_digit :: "char \<Rightarrow> bool" where
  "is_bin_digit c = (c \<in> set ''01'')"

definition radix_literal :: "string \<Rightarrow> bool" where
  \<comment> \<open>\<open>0x\<close>, \<open>0o\<close> and \<open>0b\<close> literals\<close>
  "radix_literal t =
     (case t of
        z # x # ds \<Rightarrow>
          z = CHR ''0'' \<and> ds \<noteq> [] \<and>
          ((x \<in> set ''xX'' \<and> list_all is_hex_digit ds) \<or>
           (x \<in> set ''oO'' \<and> list_all is_oct_digit ds) \<or>
           (x \<in> set ''bB'' \<and> list_all is_bin_digit ds))
      | _ \<Rightarrow> False)"

definition exponent_part :: "string \<Rightarrow> bool" where
  \<comment> \<open>an optional exponent, up to the end of the literal\<close>
  "exponent_part r =
     (case r of
        [] \<Rightarrow> True
      | e # r1 \<Rightarrow>
          e \<in> set ''eE'' \<and>
          (let r2 = (case r1 of [] \<Rightarrow> [] | s # r' \<Rightarrow> if s \<in> set ''+-'' then r' else r1)
           in r2 \<noteq> [] \<and> list_all is_digit r2))"

definition unsigned_decimal :: "string \<Rightarrow> bool" where
  "unsigned_decimal u =
     (u = ''Infinity'' \<or>
      (let ip = takeWhile is_digit u; r1 = dropWhile is_digit u
       in case r1 of
            [] \<Rightarrow> ip \<noteq> []
          | d # r2 \<Rightarrow>
              if d = CHR ''.''
              then (ip \<noteq> [] \<or> takeWhile is_digit r2 \<noteq> []) \<and> exponent_part (dropWhile is_digit r2)
              else ip \<noteq> [] \<and> exponent_part r1))"

definition str_numeric_literal :: "string \<Rightarrow> bool" where
  \<comment> \<open>the strings, already trimmed and not empty, that \<open>Number\<close> reads as a number\<close>
  "str_numeric_literal t =
     (radix_literal t \<or>
      (case t of
         [] \<Rightarrow> False
       | s # u \<Rightarrow> if s \<in> set ''+-'' then unsigned_decimal u else unsigned_decimal t))"

definition digits_val :: "string \<Rightarrow> nat" where
  "digits_val t = foldl (\<lambda>a c. a * 10 + digit_val c) 0 t"

definition Number_js :: "string \<Rightarrow> jsval option" where
  "Number_js s =
     (let t = trim s
      in if t = [] then Some (Num 0)
         else if list_all is_digit t
         then (if digits_val t < 9007199254740992 then Some (Num (digits_val t)) else None)
         else if str_numeric_literal t then None
         else Some NaN)"

definition js_add1 :: "jsval \<Rightarrow> jsval" where
  \<comment> \<open>\<open>x + 1\<close>\<close>
  "js_add1 x = (case x of Undefined \<Rightarrow> NaN | NaN \<Rightarrow> NaN | Num n \<Rightarrow> Num (n + 1))"

definition digit_char :: "nat \<Rightarrow> char" where
  "digit_char k = ''0123456789'' ! k"

fun digits_of :: "nat \<Rightarrow> string" where
  \<comment> \<open>the decimal digits of an integer, as \<open>Number.prototype.toString\<close> prints one below \<open>10^21\<close>\<close>
  "digits_of n =
     (if n < 10 then [digit_char n]
      else digits_of (n div 10) @ [digit_char (n mod 10)])"

declare digits_of.simps [simp del]

definition js_to_string :: "jsval \<Rightarrow> string" where
  \<comment> \<open>a value inside a template literal\<close>
  "js_to_string x =
     (case x of Undefined \<Rightarrow> ''undefined'' | NaN \<Rightarrow> ''NaN'' | Num n \<Rightarrow> digits_of n)"

section \<open>The version calculator\<close>

definition element :: "jsval option list \<Rightarrow> nat \<Rightarrow> jsval option" where
  \<comment> \<open>array destructuring: a position beyond the array is \<open>undefined\<close>\<close>
  "element xs i = (if i < length xs then xs ! i else Some Undefined)"

definition calculateNextVersion :: "string \<Rightarrow> string \<Rightarrow> string option" where
  "calculateNextVersion currentVersion releaseType =
     (let parts = map Number_js (split_on (CHR ''.'') currentVersion);
          major = element parts 0;
          minor = element parts 1;
          patch = element parts 2
      in if releaseType = ''major'' then
           (case major of
              None \<Rightarrow> None
            | Some mj \<Rightarrow> Some (js_to_string (js_add1 mj) @ ''.0.0''))
         else if releaseType = ''minor'' then
           (case (major, minor) of
              (Some mj, Some mi) \<Rightarrow>
                Some (js_to_string mj @ ''.'' @ js_to_string (js_add1 mi) @ ''.0'')
            | _ \<Rightarrow> None)
         else if releaseType = ''patch'' then
           (case (major, minor, patch) of
              (Some mj, Some mi, Some pa) \<Rightarrow>
                Some (js_to_string mj @ ''.'' @ js_to_string mi @ ''.'' @
                      js_to_string (js_add1 pa))
            | _ \<Rightarrow> None)
         else Some currentVersion)"

definition version_text :: "nat \<times> nat \<times> nat \<Rightarrow> string" where
  \<comment> \<open>the canonical text of a SemanticVersion, \<open>{major}.{minor}.{patch}\<close>\<close>
  "version_text v =
     (case v of (major, minor, patch) \<Rightarrow>
        digits_of major @ ''.'' @ digits_of minor @ ''.'' @ digits_of patch)"

section \<open>The commit classifier\<close>

record commit =
  message :: string

record decision =
  bumpBot :: bool
  bumpApi :: bool

definition bot_pattern :: "string list" where
  \<comment> \<open>the alternatives of \<open>/^(bot|feat\(bot\)|fix\(bot\)|perf\(bot\)|refactor\(bot\))/i\<close>\<close>
  "bot_pattern = [''bot'', ''feat(bot)'', ''fix(bot)'', ''perf(bot)'', ''refactor(bot)'']"

definition api_pattern :: "string list" where
  "api_pattern = [''api'', ''feat(api)'', ''fix(api)'', ''perf(api)'', ''refactor(api)'']"

definition matches_any :: "string list \<Rightarrow> string \<Rightarrow> bool" where
  \<comment> \<open>an alternation anchored at the start of the input: \<open>match\<close> is not null\<close>
  "matches_any alts s = list_ex (\<lambda>p. lit_ci_at p s) alts"

definition analyzeCommits :: "commit list \<Rightarrow> decision" where
  "analyzeCommits commits =
     (let hasBotCommits = list_ex (\<lambda>c. matches_any bot_pattern (message c)) commits;
          hasApiCommits = list_ex (\<lambda>c. matches_any api_pattern (message c)) commits
      in \<lparr> bumpBot = hasBotCommits \<or> (\<not> hasBotCommits \<and> \<not> hasApiCommits),
           bumpApi = hasApiCommits \<or> (\<not> hasBotCommits \<and> \<not> hasApiCommits) \<rparr>)"

definition starts_with_ci :: "string \<Rightarrow> string \<Rightarrow> bool" where
  \<comment> \<open>the specification's words: the message starts, case-insensitively, with the word\<close>
  "starts_with_ci s w =
     (length w \<le> length s \<and> map canonicalize (take (length w) s) = map canonicalize w)"

definition bot_commit :: "commit \<Rightarrow> bool" where
  "bot_commit c =
     (\<exists>w \<in> {''bot'', ''feat(bot)'', ''fix(bot)'', ''perf(bot)'', ''refactor(bot)''}.
        starts_with_ci (message c) w)"

definition api_commit :: "commit \<Rightarrow> bool" where
  "api_commit c =
     (\<exists>w \<in> {''api'', ''feat(api)'', ''fix(api)'', ''perf(api)'', ''refactor(api)''}.
        starts_with_ci (message c) w)"

section \<open>Patterns\<close>

text \<open>
  The scripts use three patterns of one shape, a key, \<open>=\<close> and a quoted value:
  \<open>/__version__\s*=\s*["']([^"']+)["']/\<close> to read, the same without the group to replace,
  and \<open>/^version\s*=\s*["'][^"']+["']/m\<close> for \<open>pyproject.toml\<close>. What follows each
  repetition cannot start with a character of the repeated class (\<open>=\<close> and the quotes are
  not white space, a quote is not in \<open>[^"']\<close>), so giving back characters never helps and
  the greedy reading below is the only match at a position.
\<close>

fun strip_lit :: "string \<Rightarrow> string \<Rightarrow> string option" where
  \<comment> \<open>a literal at the start of the input; the rest of the input\<close>
  "strip_lit [] s = Some s"
| "strip_lit (p # ps) [] = None"
| "strip_lit (p # ps) (c # cs) = (if c = p then strip_lit ps cs else None)"

definition value_at :: "string \<Rightarrow> (string \<times> string) option" where
  \<comment> \<open>\<open>([^"']+)["']\<close> at the start of the input: group 1 and what follows the match\<close>
  "value_at s =
     (let g = takeWhile (\<lambda>c. \<not> is_quote c) s
      in if g = [] then None
         else (case dropWhile (\<lambda>c. \<not> is_quote c) s of
                 [] \<Rightarrow> None
               | q # r \<Rightarrow> Some (g, r)))"

definition quoted_at :: "string \<Rightarrow> (string \<times> string) option" where
  \<comment> \<open>\<open>\s*["']([^"']+)["']\<close>\<close>
  "quoted_at s =
     (case dropWhile is_space s of
        [] \<Rightarrow> None
      | q # r \<Rightarrow> if is_quote q then value_at r else None)"

definition equals_at :: "string \<Rightarrow> (string \<times> string) option" where
  \<comment> \<open>\<open>\s*=\s*["']([^"']+)["']\<close>\<close>
  "equals_at s =
     (case dropWhile is_space s of
        [] \<Rightarrow> None
      | e # r \<Rightarrow> if e = CHR ''='' then quoted_at r else None)"

definition assign_at :: "string \<Rightarrow> string \<Rightarrow> (string \<times> string) option" where
  \<comment> \<open>\<open>key\s*=\s*["']([^"']+)["']\<close> at the start of the input\<close>
  "assign_at key s =
     (case strip_lit key s of
        None \<Rightarrow> None
      | Some r \<Rightarrow> equals_at r)"

definition is_line_terminator :: "char \<Rightarrow> bool" where
  \<comment> \<open>LF and CR are the line terminators below 256\<close>
  "is_line_terminator c = (c = CHR 0x0A \<or> c = CHR 0x0D)"

fun search_assign ::
  "bool \<Rightarrow> string \<Rightarrow> bool \<Rightarrow> string \<Rightarrow> (string \<times> string \<times> string \<times> string) option" where
  \<comment> \<open>the leftmost match: the text before it, the text matched, group 1 and the text after.
      With \<open>anchored\<close> (a pattern \<open>/^.../m\<close>) a match starts at the start of the input or
      after a line terminator only; \<open>bol\<close> says that the position is such a one.\<close>
  "search_assign anchored key bol [] = None"
| "search_assign anchored key bol (c # cs) =
     (case (if anchored \<longrightarrow> bol then assign_at key (c # cs) else None) of
        Some (g, r) \<Rightarrow> Some ([], take (length (c # cs) - length r) (c # cs), g, r)
      | None \<Rightarrow>
          map_option (\<lambda>(b, m, g, a). (c # b, m, g, a))
            (search_assign anchored key (is_line_terminator c) cs))"

definition version_re :: "string \<Rightarrow> (string \<times> string \<times> string \<times> string) option" where
  \<comment> \<open>\<open>/__version__\s*=\s*["']([^"']+)["']/\<close>\<close>
  "version_re content = search_assign False ''__version__'' True content"

definition pyproject_re :: "string \<Rightarrow> (string \<times> string \<times> string \<times> string) option" where
  \<comment> \<open>\<open>/^version\s*=\s*["'][^"']+["']/m\<close>\<close>
  "pyproject_re content = search_assign True ''version'' True content"

fun substitute :: "string \<Rightarrow> string \<Rightarrow> string \<Rightarrow> string \<Rightarrow> string" where
  \<comment> \<open>the replacement text of \<open>String.prototype.replace\<close> for a pattern without groups:
      \<open>$$\<close> is a dollar, \<open>$&\<close> the match, \<open>$`\<close> the text before it, \<open>$'\<close> the text after
      it, and any other dollar stands for itself\<close>
  "substitute [] preceding matched following = []"
| "substitute [c] preceding matched following = [c]"
| "substitute (c # d # t) preceding matched following =
     (if c = CHR ''$'' \<and> d = CHR ''$'' then CHR ''$'' # substitute t preceding matched following
      else if c = CHR ''$'' \<and> d = CHR ''&'' then matched @ substitute t preceding matched following
      else if c = CHR ''$'' \<and> d = CHR 0x60 then preceding @ substitute t preceding matched following
      else if c = CHR ''$'' \<and> d = squote then following @ substitute t preceding matched following
      else c # substitute (d # t) preceding matched following)"

definition replace_first ::
  "(string \<times> string \<times> string \<times> string) option \<Rightarrow> string \<Rightarrow> string \<Rightarrow> string" where
  \<comment> \<open>\<open>content.replace(pattern, template)\<close>, given the pattern's leftmost match in
      \<open>content\<close>: without a match the content is returned as it is\<close>
  "replace_first found content template =
     (case found of
        None \<Rightarrow> content
      | Some (preceding, matched, g, following) \<Rightarrow>
          preceding @ substitute template preceding matched following @ following)"

section \<open>Files\<close>

text \<open>
  The file system is a map from paths to contents and the set of paths that can be written.
  \<open>readFileSync\<close> throws on a path without content; \<open>writeFileSync\<close> throws on a path
  that cannot be written.
\<close>

record world =
  files :: "string \<rightharpoonup> string"
  writable :: "string \<Rightarrow> bool"

definition readFileSync :: "world \<Rightarrow> string \<Rightarrow> string option" where
  "readFileSync w filePath = files w filePath"

definition writeFileSync :: "world \<Rightarrow> string \<Rightarrow> string \<Rightarrow> world option" where
  "writeFileSync w filePath content =
     (if writable w filePath then Some (w\<lparr>files := (files w)(filePath \<mapsto> content)\<rparr>) else None)"

definition existsSync :: "world \<Rightarrow> string \<Rightarrow> bool" where
  "existsSync w filePath = (files w filePath \<noteq> None)"

definition readPythonVersion :: "world \<Rightarrow> string \<Rightarrow> string option" where
  \<comment> \<open>\<open>None\<close> is \<open>null\<close>\<close>
  "readPythonVersion w filePath =
     (case readFileSync w filePath of
        None \<Rightarrow> None
      | Some content \<Rightarrow>
          (case version_re content of
             None \<Rightarrow> None
           | Some (preceding, matched, g, following) \<Rightarrow> Some g))"

definition updatePythonVersion :: "world \<Rightarrow> string \<Rightarrow> string \<Rightarrow> bool \<times> world" where
  "updatePythonVersion w filePath newVersion =
     (case readFileSync w filePath of
        None \<Rightarrow> (False, w)
      | Some content \<Rightarrow>
          (case writeFileSync w filePath
                  (replace_first (version_re content) content
                     (''__version__ = '' @ [dquote] @ newVersion @ [dquote])) of
             None \<Rightarrow> (False, w)
           | Some w' \<Rightarrow> (True, w')))"

definition updatePyprojectVersion :: "world \<Rightarrow> string \<Rightarrow> string \<Rightarrow> bool \<times> world" where
  "updatePyprojectVersion w filePath newVersion =
     (case readFileSync w filePath of
        None \<Rightarrow> (False, w)
      | Some content \<Rightarrow>
          (case writeFileSync w filePath
                  (replace_first (pyproject_re content) content
                     (''version = '' @ [dquote] @ newVersion @ [dquote])) of
             None \<Rightarrow> (False, w)
           | Some w' \<Rightarrow> (True, w')))"

section \<open>The wrapper manifests\<close>

text \<open>
  \<open>syncWrapperVersions\<close> runs \<open>sync_versions.js\<close>, which runs \<open>get_version.js\<close> for each
  component and writes one \<open>package.json\<close> per wrapper. The scripts resolve their paths
  from the directory they are in: the \<open>layout\<close> holds the four resolved paths. A child
  process is modelled by its exit status, its standard output and its writes; that \<open>node\<close>
  itself cannot be started is not modelled.
\<close>

record layout =
  bot_init :: string
  api_init :: string
  bot_package :: string
  api_package :: string

definition get_version :: "layout \<Rightarrow> world \<Rightarrow> string \<Rightarrow> nat \<times> string" where
  \<comment> \<open>\<open>get_version.js\<close>: the exit status and the standard output\<close>
  "get_version L w app =
     (if app \<noteq> ''bot'' \<and> app \<noteq> ''api'' then (1, [])
      else (case readFileSync w (if app = ''bot'' then bot_init L else api_init L) of
              None \<Rightarrow> (1, [])
            | Some content \<Rightarrow>
                (case version_re content of
                   None \<Rightarrow> (1, [])
                 | Some (preceding, matched, g, following) \<Rightarrow>
                     if g \<noteq> [] then (0, g @ [CHR 0x0A]) else (1, []))))"

definition getVersion :: "layout \<Rightarrow> world \<Rightarrow> string \<Rightarrow> string option" where
  \<comment> \<open>\<open>getVersion\<close> of \<open>sync_versions.js\<close>\<close>
  "getVersion L w app =
     (case get_version L w app of
        (status, out) \<Rightarrow> if status \<noteq> 0 then None else Some (trim out))"

definition bslash :: char where
  "bslash = CHR 0x5C"

definition hex_char :: "nat \<Rightarrow> char" where
  "hex_char k = ''0123456789abcdef'' ! k"

definition json_escape :: "char \<Rightarrow> string" where
  "json_escape c =
     (if c = CHR 0x08 then [bslash, CHR ''b'']
      else if c = CHR 0x09 then [bslash, CHR ''t'']
      else if c = CHR 0x0A then [bslash, CHR ''n'']
      else if c = CHR 0x0C then [bslash, CHR ''f'']
      else if c = CHR 0x0D then [bslash, CHR ''r'']
      else if c = dquote then [bslash, dquote]
      else if c = bslash then [bslash, bslash]
      else if (of_char c :: nat) < 32
      then [bslash, CHR ''u'', CHR ''0'', CHR ''0'',
            hex_char (of_char c div 16), hex_char (of_char c mod 16)]
      else [c])"

definition json_string :: "string \<Rightarrow> string" where
  "json_string s = [dquote] @ concat (map json_escape s) @ [dquote]"

definition package_json :: "string \<Rightarrow> string \<Rightarrow> string" where
  \<comment> \<open>\<open>JSON.stringify({name, version}, null, 2) + '\n'\<close>\<close>
  "package_json appName v =
     ''{'' @ [CHR 0x0A] @
     ''  '' @ json_string ''name'' @ '': '' @ json_string appName @ '','' @ [CHR 0x0A] @
     ''  '' @ json_string ''version'' @ '': '' @ json_string v @ [CHR 0x0A] @
     ''}'' @ [CHR 0x0A]"

definition updatePackageJson :: "world \<Rightarrow> string \<Rightarrow> string \<Rightarrow> string \<Rightarrow> bool \<times> world" where
  \<comment> \<open>the first argument after the world is the resolved path of the wrapper's
      \<open>package.json\<close>\<close>
  "updatePackageJson w packageJsonPath appName v =
     (case writeFileSync w packageJsonPath (package_json appName v) of
        None \<Rightarrow> (False, w)
      | Some w' \<Rightarrow> (True, w'))"

definition falsy :: "string option \<Rightarrow> bool" where
  \<comment> \<open>\<open>!x\<close> for a string or \<open>null\<close>\<close>
  "falsy x = (case x of None \<Rightarrow> True | Some s \<Rightarrow> s = [])"

definition sync_versions :: "layout \<Rightarrow> world \<Rightarrow> nat \<times> world" where
  \<comment> \<open>\<open>sync_versions.js\<close>: the exit status and the world it leaves\<close>
  "sync_versions L w =
     (let botVersion = getVersion L w ''bot'';
          apiVersion = getVersion L w ''api''
      in case (botVersion, apiVersion) of
           (Some bv, Some av) \<Rightarrow>
             if bv = [] \<or> av = [] then (1, w)
             else (case updatePackageJson w (bot_package L) ''nightscout-backup-bot'' bv of
                     (botUpdated, w1) \<Rightarrow>
                       (case updatePackageJson w1 (api_package L) ''nightscout-backup-api'' av of
                          (apiUpdated, w2) \<Rightarrow>
                            if botUpdated \<and> apiUpdated then (0, w2) else (1, w2)))
         | _ \<Rightarrow> (1, w))"

definition syncWrapperVersions :: "layout \<Rightarrow> world \<Rightarrow> string \<Rightarrow> string \<Rightarrow> bool \<times> world" where
  "syncWrapperVersions L w botVersion apiVersion =
     (case sync_versions L w of (status, w') \<Rightarrow> (status = 0, w'))"

section \<open>The prepare step\<close>

record pluginConfig =
  botVersionFile :: string
  apiVersionFile :: string
  pyprojectFile :: "string option"

record prepare_context =
  commits :: "commit list"
  nextRelease_type :: string

text \<open>
  The calls of \<open>logger.log\<close> and \<open>logger.warn\<close>, one constructor for each call of the
  source, with the values its message shows.
\<close>

datatype event =
    LogUpdating
  | LogCurrentBot string
  | LogCurrentApi string
  | LogBumpingBot string string
  | LogBumpingApi string string
  | LogUpdated string string
  | LogSyncing
  | WarnSyncFailed
  | LogSynced

text \<open>
  A run of \<open>prepare\<close> returns its object or throws an \<open>Error\<close> with a message.
\<close>

datatype 'a outcome = Returns 'a | Throws string

definition update_bot ::
  "pluginConfig \<Rightarrow> string \<Rightarrow> world \<Rightarrow> event list \<Rightarrow> string option \<times> world \<times> event list" where
  \<comment> \<open>the body of the first \<open>if (bumpBot)\<close> under \<open>// Update Python files\<close>; \<open>Some\<close> is
      the message of the error thrown\<close>
  "update_bot pluginConfig botVersion w log =
     (case updatePythonVersion w (botVersionFile pluginConfig) botVersion of
        (ok, w1) \<Rightarrow>
          if \<not> ok
          then (Some (''Failed to update bot version in '' @ botVersionFile pluginConfig), w1, log)
          else (let log1 = log @ [LogUpdated (botVersionFile pluginConfig) botVersion]
                in case pyprojectFile pluginConfig of
                     None \<Rightarrow> (None, w1, log1)
                   | Some pyproject \<Rightarrow>
                       if pyproject \<noteq> [] \<and> existsSync w1 pyproject
                       then (case updatePyprojectVersion w1 pyproject botVersion of
                               (ok2, w2) \<Rightarrow>
                                 if \<not> ok2 then (Some ''Failed to update pyproject.toml'', w2, log1)
                                 else (None, w2, log1 @ [LogUpdated pyproject botVersion]))
                       else (None, w1, log1)))"

definition update_api ::
  "pluginConfig \<Rightarrow> string \<Rightarrow> world \<Rightarrow> event list \<Rightarrow> string option \<times> world \<times> event list" where
  \<comment> \<open>the body of the second \<open>if (bumpApi)\<close>\<close>
  "update_api pluginConfig apiVersion w log =
     (case updatePythonVersion w (apiVersionFile pluginConfig) apiVersion of
        (ok, w1) \<Rightarrow>
          if \<not> ok
          then (Some (''Failed to update API version in '' @ apiVersionFile pluginConfig), w1, log)
          else (None, w1, log @ [LogUpdated (apiVersionFile pluginConfig) apiVersion]))"

definition update_files ::
  "pluginConfig \<Rightarrow> decision \<Rightarrow> string \<Rightarrow> string \<Rightarrow> world \<Rightarrow> event list
     \<Rightarrow> string option \<times> world \<times> event list" where
  \<comment> \<open>\<open>prepare\<close> from \<open>// Update Python files\<close> to \<open>// Sync wrapper package.json files\<close>\<close>
  "update_files pluginConfig d botVersion apiVersion w log =
     (case (if bumpBot d then update_bot pluginConfig botVersion w log else (None, w, log)) of
        (Some msg, w1, log1) \<Rightarrow> (Some msg, w1, log1)
      | (None, w1, log1) \<Rightarrow>
          if bumpApi d then update_api pluginConfig apiVersion w1 log1 else (None, w1, log1))"

text \<open>The object that \<open>prepare\<close> returns.\<close>

record versions =
  botVersion :: string
  apiVersion :: string
  version :: string

text \<open>
  The model of a run is \<open>None\<close> when \<open>calculateNextVersion\<close> meets a number that the model
  of numbers does not cover. The code then goes on with a version that the model cannot
  name: the model says nothing about what such a run returns, logs or writes.
\<close>

definition prepare_updates ::
  "pluginConfig \<Rightarrow> prepare_context \<Rightarrow> world
     \<Rightarrow> ((string \<times> string) outcome \<times> world \<times> event list) option" where
  \<comment> \<open>the statements of \<open>prepare\<close> before \<open>// Sync wrapper package.json files\<close>; what is
      returned is the values of \<open>botVersion\<close> and \<open>apiVersion\<close> at that point\<close>
  "prepare_updates pluginConfig ctx w =
     (let currentBotVersion = readPythonVersion w (botVersionFile pluginConfig);
          currentApiVersion = readPythonVersion w (apiVersionFile pluginConfig)
      in if falsy currentBotVersion \<or> falsy currentApiVersion
         then Some (Throws ''Could not read current versions from Python files'', w,
                    [LogUpdating])
         else
           (let cb = the currentBotVersion;
                ca = the currentApiVersion;
                d = analyzeCommits (commits ctx);
                releaseType = nextRelease_type ctx
            in case (if bumpBot d then calculateNextVersion cb releaseType else Some cb,
                     if bumpApi d then calculateNextVersion ca releaseType else Some ca) of
                 (Some bv, Some av) \<Rightarrow>
                   (case update_files pluginConfig d bv av w
                           ([LogUpdating, LogCurrentBot cb, LogCurrentApi ca] @
                            (if bumpBot d then [LogBumpingBot cb bv] else []) @
                            (if bumpApi d then [LogBumpingApi ca av] else [])) of
                      (Some msg, w1, log1) \<Rightarrow> Some (Throws msg, w1, log1)
                    | (None, w1, log1) \<Rightarrow> Some (Returns (bv, av), w1, log1))
               | _ \<Rightarrow> None))"

definition prepare ::
  "layout \<Rightarrow> pluginConfig \<Rightarrow> prepare_context \<Rightarrow> world
     \<Rightarrow> (versions outcome \<times> world \<times> event list) option" where
  "prepare L pluginConfig ctx w =
     (case prepare_updates pluginConfig ctx w of
        None \<Rightarrow> None
      | Some (Returns (bv, av), w1, log1) \<Rightarrow>
          (case syncWrapperVersions L w1 bv av of
             (synced, w2) \<Rightarrow>
               Some (Returns \<lparr> botVersion = bv, apiVersion = av, version = bv \<rparr>,
                     w2,
                     log1 @ [LogSyncing] @ (if \<not> synced then [WarnSyncFailed] else [LogSynced])))
      | Some (Throws msg, w1, log1) \<Rightarrow> Some (Throws msg, w1, log1))"

definition canonical :: "string \<Rightarrow> bool" where
  \<comment> \<open>the specification's shape of a version text: the whole string matches
      \<open>\d+\.\d+\.\d+\<close>\<close>
  "canonical s =
     (case split_on (CHR ''.'') s of
        [a, b, c] \<Rightarrow>
          a \<noteq> [] \<and> list_all is_digit a \<and> b \<noteq> [] \<and> list_all is_digit b \<and>
          c \<noteq> [] \<and> list_all is_digit c
      | _ \<Rightarrow> False)"

section \<open>An example installation\<close>

text \<open>
  A small installation on which the properties below are run: the two files with the version
  constants, a \<open>pyproject.toml\<close> and the two wrapper manifests. \<open>example_world bv av locked\<close>
  holds the bot at \<open>bv\<close> and the api at \<open>av\<close>; the paths in \<open>locked\<close> cannot be written.
\<close>

definition example_layout :: layout where
  "example_layout =
     \<lparr> bot_init = ''bot.py'', api_init = ''api.py'',
       bot_package = ''bot.json'', api_package = ''api.json'' \<rparr>"

definition example_config :: pluginConfig where
  "example_config =
     \<lparr> botVersionFile = ''bot.py'', apiVersionFile = ''api.py'',
       pyprojectFile = Some ''pyproject.toml'' \<rparr>"

definition version_file :: "string \<Rightarrow> string" where
  "version_file v = ''__version__ = '' @ [dquote] @ v @ [dquote] @ [CHR 0x0A]"

definition pyproject_file :: "string \<Rightarrow> string" where
  "pyproject_file v =
     ''[tool.poetry]'' @ [CHR 0x0A] @ ''version = '' @ [dquote] @ v @ [dquote] @ [CHR 0x0A]"

definition example_world :: "string \<Rightarrow> string \<Rightarrow> string list \<Rightarrow> world" where
  "example_world bv av locked =
     \<lparr> files = [''bot.py'' \<mapsto> version_file bv, ''api.py'' \<mapsto> version_file av,
                ''pyproject.toml'' \<mapsto> pyproject_file bv],
       writable = (\<lambda>p. p \<notin> set locked) \<rparr>"

section \<open>Notions for the proofs\<close>

definition version_field :: "string \<Rightarrow> string option" where
  \<comment> \<open>the value of the version field of a \<open>pyproject.toml\<close>: what the pattern of
      \<open>updatePyprojectVersion\<close> finds between the quotes\<close>
  "version_field content = map_option (\<lambda>(b, m, g, a). g) (pyproject_re content)"

definition plain_key :: "string \<Rightarrow> bool" where
  \<comment> \<open>a key that is not empty and holds no white space, no \<open>=\<close> and no quote\<close>
  "plain_key key =
     (key \<noteq> [] \<and> list_all (\<lambda>c. \<not> is_space c \<and> c \<noteq> CHR ''='' \<and> \<not> is_quote c) key)"

definition header :: "string \<Rightarrow> string \<Rightarrow> bool" where
  \<comment> \<open>a text that starts as a match starts: the key, white space, \<open>=\<close>, white space and
      a quote\<close>
  "header key x =
     (\<exists>ws1 ws2 q rest.
        x = key @ ws1 @ CHR ''='' # ws2 @ q # rest \<and>
        list_all is_space ws1 \<and> list_all is_space ws2 \<and> is_quote q)"

section \<open>Unfolding the definitions on concrete inputs\<close>

lemmas example_defs =
  example_layout_def example_config_def example_world_def version_file_def pyproject_file_def

lemmas pattern_defs =
  version_re_def pyproject_re_def assign_at_def equals_at_def quoted_at_def value_at_def
  is_space_def is_quote_def dquote_def squote_def is_line_terminator_def

lemmas number_defs =
  calculateNextVersion_def element_def Number_js_def trim_def is_space_def is_digit_def
  digits_val_def digit_val_def js_add1_def js_to_string_def digits_of.simps digit_char_def
  str_numeric_literal_def radix_literal_def unsigned_decimal_def exponent_part_def

lemmas commit_defs =
  analyzeCommits_def matches_any_def bot_pattern_def api_pattern_def canonicalize_def

lemmas prepare_defs =
  prepare_def prepare_updates_def update_files_def update_bot_def update_api_def falsy_def
  Let_def updatePythonVersion_def updatePyprojectVersion_def readPythonVersion_def
  readFileSync_def writeFileSync_def existsSync_def replace_first_def

lemmas sync_defs =
  syncWrapperVersions_def sync_versions_def getVersion_def get_version_def
  updatePackageJson_def

section \<open>Properties of the version calculator and of the commit classifier\<close>

lemma below_ten_cases:
  fixes k :: nat
  assumes "k < 10"
  obtains "k = 0" | "k = 1" | "k = 2" | "k = 3" | "k = 4" | "k = 5" | "k = 6" | "k = 7"
    | "k = 8" | "k = 9"
  using assms by fastforce

lemma digit_char_is_digit: "k < 10 \<Longrightarrow> is_digit (digit_char k)"
  by (erule below_ten_cases) (simp_all add: is_digit_def digit_char_def)

lemma digit_val_digit_char: "k < 10 \<Longrightarrow> digit_val (digit_char k) = k"
  by (erule below_ten_cases) (simp_all add: digit_val_def digit_char_def)

lemma digits_of_not_Nil: "digits_of n \<noteq> []"
  by (subst digits_of.simps) simp

lemma digits_of_all_digits: "list_all is_digit (digits_of n)"
proof (induction n rule: digits_of.induct)
  case (1 n)
  show ?case
  proof (cases "n < 10")
    case True
    then show ?thesis
      by (subst digits_of.simps) (simp add: digit_char_is_digit)
  next
    case False
    with 1 show ?thesis
      by (subst digits_of.simps) (simp add: digit_char_is_digit)
  qed
qed

lemma digits_val_snoc: "digits_val (t @ [c]) = digits_val t * 10 + digit_val c"
  by (simp add: digits_val_def)

lemma digits_val_digits_of: "digits_val (digits_of n) = n"
proof (induction n rule: digits_of.induct)
  case (1 n)
  show ?case
  proof (cases "n < 10")
    case True
    then show ?thesis
      by (subst digits_of.simps) (simp add: digits_val_def digit_val_digit_char)
  next
    case False
    with 1 have "digits_val (digits_of (n div 10)) = n div 10"
      by simp
    with False show ?thesis
      by (subst digits_of.simps) (simp add: digits_val_snoc digit_val_digit_char)
  qed
qed

lemma digit_not_space: "is_digit c \<Longrightarrow> \<not> is_space c"
  by (auto simp: is_digit_def is_space_def)

lemma digit_not_dot: "is_digit c \<Longrightarrow> c \<noteq> CHR ''.''"
  by (auto simp: is_digit_def)

lemma trim_digits: "list_all is_digit t \<Longrightarrow> trim t = t"
proof -
  assume d: "list_all is_digit t"
  have front: "dropWhile is_space t = t"
    using d by (cases t) (simp_all add: digit_not_space)
  have "list_all is_digit (rev t)"
    using d by (simp add: list_all_iff)
  then have "dropWhile is_space (rev t) = rev t"
    by (cases "rev t") (simp_all add: digit_not_space)
  with front show ?thesis
    by (simp add: trim_def)
qed

lemma Number_js_digits_of: "n < 9007199254740992 \<Longrightarrow> Number_js (digits_of n) = Some (Num n)"
  by (simp add: Number_js_def trim_digits digits_of_all_digits digits_of_not_Nil
      digits_val_digits_of)

lemma split_on_no_sep: "d \<notin> set a \<Longrightarrow> split_on d a = [a]"
  by (induction a) auto

lemma split_on_append: "d \<notin> set a \<Longrightarrow> split_on d (a @ d # r) = a # split_on d r"
  by (induction a) auto

lemma dot_notin_digits_of: "CHR ''.'' \<notin> set (digits_of n)"
  using digits_of_all_digits [of n] digit_not_dot by (auto simp: list_all_iff)

lemma split_version_text:
  "split_on (CHR ''.'') (version_text (a, b, c)) = [digits_of a, digits_of b, digits_of c]"
  by (simp add: version_text_def split_on_append split_on_no_sep dot_notin_digits_of)

lemma digits_of_0: "digits_of 0 = ''0''"
  by (subst digits_of.simps) (simp add: digit_char_def)

text \<open>
  C1. For a SemanticVersion whose components are safe integers (below \<open>2^53\<close>), given in its
  canonical text, \<open>calculateNextVersion\<close> returns for \<open>major\<close> the version
  \<open>(major+1, 0, 0)\<close>, for \<open>minor\<close> the version \<open>(major, minor+1, 0)\<close> and for
  \<open>patch\<close> the version \<open>(major, minor, patch+1)\<close>: the named component goes up by one
  and the components of lower order become zero.
\<close>

theorem calculateNextVersion_increments:
  assumes "major < 9007199254740992" and "minor < 9007199254740992"
    and "patch < 9007199254740992"
  shows "calculateNextVersion (version_text (major, minor, patch)) ''major''
           = Some (version_text (major + 1, 0, 0))
       \<and> calculateNextVersion (version_text (major, minor, patch)) ''minor''
           = Some (version_text (major, minor + 1, 0))
       \<and> calculateNextVersion (version_text (major, minor, patch)) ''patch''
           = Some (version_text (major, minor, patch + 1))"
  using assms
  by (simp add: calculateNextVersion_def split_version_text element_def Number_js_digits_of
      js_add1_def js_to_string_def digits_of_0) (simp add: version_text_def digits_of_0)

theorem calculateNextVersion_increments_witness:
  "calculateNextVersion ''1.2.3'' ''major'' = Some ''2.0.0''
   \<and> calculateNextVersion ''1.2.3'' ''minor'' = Some ''1.3.0''
   \<and> calculateNextVersion ''1.2.3'' ''patch'' = Some ''1.2.4''"
  using calculateNextVersion_increments [of 1 2 3]
  by (simp add: version_text_def digits_of.simps digit_char_def)

text \<open>
  C2 claims that a release type outside \<open>major\<close>, \<open>minor\<close>, \<open>patch\<close> is an
  InvalidReleaseType failure. The \<open>default\<close> branch of the switch returns the input:
  for \<open>rc\<close> the version \<open>1.2.3\<close> comes back as it went in.
\<close>

theorem calculateNextVersion_other_type_counterexample:
  "calculateNextVersion ''1.2.3'' ''rc'' = Some ''1.2.3''"
  by (simp add: calculateNextVersion_def)

text \<open>
  C2, amended. For every current version and every release type outside \<open>major\<close>,
  \<open>minor\<close>, \<open>patch\<close>, \<open>calculateNextVersion\<close> returns the current version
  unchanged, and raises no error.
\<close>

theorem calculateNextVersion_other_type:
  assumes "releaseType \<notin> {''major'', ''minor'', ''patch''}"
  shows "calculateNextVersion currentVersion releaseType = Some currentVersion"
  using assms by (simp add: calculateNextVersion_def)

theorem calculateNextVersion_other_type_witness:
  "''prerelease'' \<notin> {''major'', ''minor'', ''patch''}
   \<and> calculateNextVersion ''2.0.0'' ''prerelease'' = Some ''2.0.0''"
  using calculateNextVersion_other_type [of "''prerelease''" "''2.0.0''"] by simp

lemma lit_ci_at_starts_with: "lit_ci_at w s = starts_with_ci s w"
  by (induction w s rule: lit_ci_at.induct) (auto simp: starts_with_ci_def)

lemma matches_bot_pattern: "matches_any bot_pattern (message c) = bot_commit c"
  by (simp add: matches_any_def bot_pattern_def bot_commit_def lit_ci_at_starts_with)

lemma matches_api_pattern: "matches_any api_pattern (message c) = api_commit c"
  by (simp add: matches_any_def api_pattern_def api_commit_def lit_ci_at_starts_with)

text \<open>
  C3. For every list of commits, \<open>bumpBot\<close> is true exactly when some commit message
  starts, case-insensitively, with one of \<open>bot\<close>, \<open>feat(bot)\<close>, \<open>fix(bot)\<close>,
  \<open>perf(bot)\<close>, \<open>refactor(bot)\<close>, or no commit matches the bot or the api pattern;
  \<open>bumpApi\<close> is true exactly when some commit matches the api pattern, or no commit
  matches either.
\<close>

theorem analyzeCommits_flags:
  "bumpBot (analyzeCommits cs)
     = ((\<exists>c \<in> set cs. bot_commit c) \<or> \<not> (\<exists>c \<in> set cs. bot_commit c \<or> api_commit c))
   \<and> bumpApi (analyzeCommits cs)
     = ((\<exists>c \<in> set cs. api_commit c) \<or> \<not> (\<exists>c \<in> set cs. bot_commit c \<or> api_commit c))"
  by (auto simp: analyzeCommits_def Let_def list_ex_iff matches_bot_pattern matches_api_pattern)

theorem analyzeCommits_flags_witness:
  "\<not> bumpBot (analyzeCommits [\<lparr>message = ''feat(api): add endpoint''\<rparr>, \<lparr>message = ''chore: cleanup''\<rparr>])
   \<and> bumpApi (analyzeCommits [\<lparr>message = ''feat(api): add endpoint''\<rparr>, \<lparr>message = ''chore: cleanup''\<rparr>])"
  using analyzeCommits_flags
    [of "[\<lparr>message = ''feat(api): add endpoint''\<rparr>, \<lparr>message = ''chore: cleanup''\<rparr>]"]
  by (simp add: bot_commit_def api_commit_def starts_with_ci_def canonicalize_def)

text \<open>
  C4. For every list of commits, the decision of \<open>analyzeCommits\<close> never has both flags
  false; for the empty list both flags are true.
\<close>

theorem analyzeCommits_never_both_false:
  "(bumpBot (analyzeCommits cs) \<or> bumpApi (analyzeCommits cs))
   \<and> analyzeCommits [] = \<lparr> bumpBot = True, bumpApi = True \<rparr>"
  by (auto simp: analyzeCommits_def Let_def)

theorem analyzeCommits_never_both_false_witness:
  "bumpBot (analyzeCommits [\<lparr>message = ''docs: update readme''\<rparr>])
   \<or> bumpApi (analyzeCommits [\<lparr>message = ''docs: update readme''\<rparr>])"
  using analyzeCommits_never_both_false [of "[\<lparr>message = ''docs: update readme''\<rparr>]"]
  by simp

section \<open>Properties of the patterns\<close>

lemma strip_lit_Some: "strip_lit p s = Some r \<longleftrightarrow> s = p @ r"
  by (induction p s rule: strip_lit.induct) auto

lemma value_at_Some:
  assumes "value_at s = Some (g, r)"
  shows "\<exists>q. s = g @ q # r \<and> is_quote q \<and> g \<noteq> [] \<and> list_all (\<lambda>c. \<not> is_quote c) g"
proof -
  let ?nq = "\<lambda>c. \<not> is_quote c"
  from assms have g: "g = takeWhile ?nq s" and ne: "g \<noteq> []"
    by (auto simp: value_at_def Let_def split: if_splits list.splits)
  from assms obtain q where d: "dropWhile ?nq s = q # r"
    by (auto simp: value_at_def Let_def split: if_splits list.splits)
  have "s = takeWhile ?nq s @ dropWhile ?nq s"
    by simp
  with g d have s: "s = g @ q # r"
    by simp
  from d have "is_quote q"
    using hd_dropWhile [of ?nq s] by auto
  moreover have "list_all ?nq g"
    unfolding g list_all_iff by (auto dest: set_takeWhileD)
  ultimately show ?thesis
    using s ne by blast
qed

lemma value_at_intro:
  assumes "g \<noteq> []" and "list_all (\<lambda>c. \<not> is_quote c) g" and "is_quote q"
  shows "value_at (g @ q # r) = Some (g, r)"
proof -
  let ?nq = "\<lambda>c. \<not> is_quote c"
  from assms have "takeWhile ?nq (g @ q # r) = g"
    by (simp add: list_all_iff takeWhile_append2)
  moreover from assms have "dropWhile ?nq (g @ q # r) = q # r"
    by (simp add: list_all_iff dropWhile_append2)
  ultimately show ?thesis
    using assms(1) by (simp add: value_at_def)
qed

lemma spaces_then:
  assumes "list_all is_space ws" and "\<not> is_space c"
  shows "dropWhile is_space (ws @ c # r) = c # r"
  using assms by (simp add: list_all_iff dropWhile_append2)

lemma dropWhile_space_Cons:
  assumes "dropWhile is_space s = c # r"
  shows "\<exists>ws. s = ws @ c # r \<and> list_all is_space ws \<and> \<not> is_space c"
proof -
  have "s = takeWhile is_space s @ dropWhile is_space s"
    by simp
  with assms have "s = takeWhile is_space s @ c # r"
    by simp
  moreover have "list_all is_space (takeWhile is_space s)"
    unfolding list_all_iff by (auto dest: set_takeWhileD)
  moreover from assms have "\<not> is_space c"
    using hd_dropWhile [of is_space s] by auto
  ultimately show ?thesis
    by blast
qed

lemma quote_not_space: "is_quote q \<Longrightarrow> \<not> is_space q"
  by (auto simp: is_quote_def is_space_def dquote_def squote_def)

lemma equals_not_space: "\<not> is_space (CHR ''='')"
  by (simp add: is_space_def)

lemma equals_not_quote: "\<not> is_quote (CHR ''='')"
  by (simp add: is_quote_def dquote_def squote_def)

lemma space_not_quote: "is_space c \<Longrightarrow> \<not> is_quote c"
  using quote_not_space by blast

lemma quoted_at_Some:
  assumes "quoted_at s = Some (g, r)"
  shows "\<exists>ws q q'. s = ws @ q # g @ q' # r \<and> list_all is_space ws \<and> is_quote q \<and> is_quote q'
           \<and> g \<noteq> [] \<and> list_all (\<lambda>c. \<not> is_quote c) g"
proof -
  from assms obtain q s1 where d: "dropWhile is_space s = q # s1" and q: "is_quote q"
    and v: "value_at s1 = Some (g, r)"
    by (auto simp: quoted_at_def split: list.splits if_splits)
  from dropWhile_space_Cons [OF d] obtain ws where "s = ws @ q # s1" and "list_all is_space ws"
    by blast
  with value_at_Some [OF v] q show ?thesis
    by auto
qed

lemma quoted_at_intro:
  assumes "list_all is_space ws" and "is_quote q" and "value_at s = Some (g, r)"
  shows "quoted_at (ws @ q # s) = Some (g, r)"
  using assms by (simp add: quoted_at_def spaces_then quote_not_space)

lemma equals_at_Some:
  assumes "equals_at s = Some (g, r)"
  shows "\<exists>ws1 ws2 q q'. s = ws1 @ CHR ''='' # ws2 @ q # g @ q' # r \<and> list_all is_space ws1
           \<and> list_all is_space ws2 \<and> is_quote q \<and> is_quote q'
           \<and> g \<noteq> [] \<and> list_all (\<lambda>c. \<not> is_quote c) g"
proof -
  from assms obtain s1 where d: "dropWhile is_space s = CHR ''='' # s1"
    and v: "quoted_at s1 = Some (g, r)"
    by (auto simp: equals_at_def split: list.splits if_splits)
  from dropWhile_space_Cons [OF d] obtain ws where "s = ws @ CHR ''='' # s1"
    and "list_all is_space ws"
    by blast
  with quoted_at_Some [OF v] show ?thesis
    by auto
qed

lemma equals_at_intro:
  assumes "list_all is_space ws" and "quoted_at s = Some (g, r)"
  shows "equals_at (ws @ CHR ''='' # s) = Some (g, r)"
  using assms by (simp add: equals_at_def spaces_then equals_not_space)

lemma assign_at_Some:
  assumes "assign_at key s = Some (g, r)"
  shows "\<exists>ws1 ws2 q q'. s = key @ ws1 @ CHR ''='' # ws2 @ q # g @ q' # r \<and> list_all is_space ws1
           \<and> list_all is_space ws2 \<and> is_quote q \<and> is_quote q'
           \<and> g \<noteq> [] \<and> list_all (\<lambda>c. \<not> is_quote c) g"
proof -
  from assms obtain s1 where "strip_lit key s = Some s1" and e: "equals_at s1 = Some (g, r)"
    by (auto simp: assign_at_def split: option.splits)
  then have "s = key @ s1"
    by (simp add: strip_lit_Some)
  with equals_at_Some [OF e] show ?thesis
    by auto
qed

text \<open>
  The greedy reading is the meaning of the pattern: \<open>assign_at\<close> gives a group and a rest
  exactly when the input is the key, white space, \<open>=\<close>, white space, a quote, the group (not
  empty, without quotes), a quote and the rest.
\<close>

lemma assign_at_iff:
  "assign_at key s = Some (g, r) \<longleftrightarrow>
     (\<exists>ws1 ws2 q q'.
        s = key @ ws1 @ CHR ''='' # ws2 @ q # g @ q' # r
      \<and> list_all is_space ws1 \<and> list_all is_space ws2 \<and> is_quote q \<and> is_quote q'
      \<and> g \<noteq> [] \<and> list_all (\<lambda>c. \<not> is_quote c) g)"
proof
  assume "assign_at key s = Some (g, r)"
  then show "\<exists>ws1 ws2 q q'.
        s = key @ ws1 @ CHR ''='' # ws2 @ q # g @ q' # r
      \<and> list_all is_space ws1 \<and> list_all is_space ws2 \<and> is_quote q \<and> is_quote q'
      \<and> g \<noteq> [] \<and> list_all (\<lambda>c. \<not> is_quote c) g"
    by (rule assign_at_Some)
next
  assume "\<exists>ws1 ws2 q q'.
        s = key @ ws1 @ CHR ''='' # ws2 @ q # g @ q' # r
      \<and> list_all is_space ws1 \<and> list_all is_space ws2 \<and> is_quote q \<and> is_quote q'
      \<and> g \<noteq> [] \<and> list_all (\<lambda>c. \<not> is_quote c) g"
  then obtain ws1 ws2 q q' where s: "s = key @ ws1 @ CHR ''='' # ws2 @ q # g @ q' # r"
    and ws1: "list_all is_space ws1" and ws2: "list_all is_space ws2"
    and q: "is_quote q" and q': "is_quote q'"
    and g: "g \<noteq> []" "list_all (\<lambda>c. \<not> is_quote c) g"
    by blast
  have "value_at (g @ q' # r) = Some (g, r)"
    using g q' by (rule value_at_intro)
  with ws2 q have "quoted_at (ws2 @ q # g @ q' # r) = Some (g, r)"
    by (rule quoted_at_intro)
  with ws1 have "equals_at (ws1 @ CHR ''='' # ws2 @ q # g @ q' # r) = Some (g, r)"
    by (rule equals_at_intro)
  moreover have "strip_lit key s = Some (ws1 @ CHR ''='' # ws2 @ q # g @ q' # r)"
    using s by (simp add: strip_lit_Some)
  ultimately show "assign_at key s = Some (g, r)"
    by (simp add: assign_at_def)
qed

lemma assign_at_header: "assign_at key s = Some (g, r) \<Longrightarrow> header key s"
  unfolding header_def by (drule assign_at_Some) blast

lemma assign_at_suffix:
  assumes "assign_at key s = Some (g, r)"
  shows "\<exists>m. s = m @ r \<and> m \<noteq> []"
proof -
  from assign_at_Some [OF assms] obtain ws1 ws2 q q'
    where "s = key @ ws1 @ CHR ''='' # ws2 @ q # g @ q' # r"
    by blast
  then have "s = (key @ ws1 @ CHR ''='' # ws2 @ q # g @ [q']) @ r"
    by simp
  then show ?thesis
    by blast
qed

lemma assign_at_template:
  assumes "v \<noteq> []" and "list_all (\<lambda>c. \<not> is_quote c) v"
  shows "assign_at key (key @ '' = '' @ [dquote] @ v @ [dquote] @ r) = Some (v, r)"
proof -
  have sp: "list_all is_space '' ''"
    by (simp add: is_space_def)
  have dq: "is_quote dquote"
    by (simp add: is_quote_def)
  have "value_at (v @ dquote # r) = Some (v, r)"
    using assms dq by (rule value_at_intro)
  then have "quoted_at ('' '' @ dquote # v @ dquote # r) = Some (v, r)"
    using sp dq by (intro quoted_at_intro)
  then have "equals_at ('' '' @ CHR ''='' # '' '' @ dquote # v @ dquote # r) = Some (v, r)"
    using sp by (intro equals_at_intro)
  moreover have "strip_lit key (key @ '' = '' @ [dquote] @ v @ [dquote] @ r)
      = Some ('' = '' @ [dquote] @ v @ [dquote] @ r)"
    by (simp add: strip_lit_Some)
  ultimately show ?thesis
    by (simp add: assign_at_def)
qed

lemma header_Cons:
  assumes "header key x" and "plain_key key"
  shows "\<exists>k t. x = k # t \<and> \<not> is_space k \<and> k \<noteq> CHR ''='' \<and> \<not> is_quote k"
proof -
  from assms(2) obtain k key' where "key = k # key'"
    and "\<not> is_space k \<and> k \<noteq> CHR ''='' \<and> \<not> is_quote k"
    by (cases key) (auto simp: plain_key_def)
  with assms(1) show ?thesis
    by (auto simp: header_def)
qed

lemma header_value:
  assumes "header key x" and "plain_key key"
  shows "\<exists>g q r. x = g @ q # r \<and> g \<noteq> [] \<and> list_all (\<lambda>c. \<not> is_quote c) g \<and> is_quote q"
proof -
  from assms(1) obtain ws1 ws2 q rest where x: "x = key @ ws1 @ CHR ''='' # ws2 @ q # rest"
    and ws: "list_all is_space ws1" "list_all is_space ws2" and q: "is_quote q"
    by (auto simp: header_def)
  let ?g = "key @ ws1 @ CHR ''='' # ws2"
  have "list_all (\<lambda>c. \<not> is_quote c) ?g"
    using assms(2) ws by (auto simp: plain_key_def list_all_iff equals_not_quote space_not_quote)
  moreover have "x = ?g @ q # rest"
    using x by simp
  ultimately show ?thesis
    using q by blast
qed

lemma value_at_before_header:
  assumes "header key x" and "plain_key key"
  shows "value_at (s @ x) = None \<longleftrightarrow> (\<exists>c \<in> set s. is_quote c) \<and> value_at s = None"
proof (cases "\<exists>c \<in> set s. is_quote c")
  case True
  then obtain c where c: "c \<in> set s" "\<not> \<not> is_quote c"
    by auto
  have "takeWhile (\<lambda>c. \<not> is_quote c) (s @ x) = takeWhile (\<lambda>c. \<not> is_quote c) s"
    using c by (rule takeWhile_append1)
  moreover have "dropWhile (\<lambda>c. \<not> is_quote c) (s @ x) = dropWhile (\<lambda>c. \<not> is_quote c) s @ x"
    using c by (rule dropWhile_append1)
  moreover have "dropWhile (\<lambda>c. \<not> is_quote c) s \<noteq> []"
    using c by (auto simp: dropWhile_eq_Nil_conv)
  ultimately show ?thesis
    using True by (auto simp: value_at_def Let_def split: list.splits)
next
  case False
  from header_value [OF assms] obtain g q r where x: "x = g @ q # r" and "g \<noteq> []"
    and "list_all (\<lambda>c. \<not> is_quote c) g" and "is_quote q"
    by blast
  with False have "value_at ((s @ g) @ q # r) = Some (s @ g, r)"
    by (intro value_at_intro) (auto simp: list_all_iff)
  with x False show ?thesis
    by simp
qed

lemma quoted_at_before_header:
  assumes "header key x" and "header key y" and "plain_key key"
  shows "quoted_at (s @ x) = None \<longleftrightarrow> quoted_at (s @ y) = None"
proof (cases "list_all is_space s")
  case True
  have "quoted_at (s @ z) = None" if "header key z" for z
  proof -
    from header_Cons [OF that assms(3)] obtain k t where "z = k # t" "\<not> is_space k" "\<not> is_quote k"
      by blast
    with True show ?thesis
      by (simp add: quoted_at_def spaces_then)
  qed
  with assms show ?thesis
    by simp
next
  case False
  then obtain c where c: "c \<in> set s" "\<not> is_space c"
    by (auto simp: list_all_iff)
  then have d: "dropWhile is_space (s @ z) = dropWhile is_space s @ z" for z
    by (rule dropWhile_append1)
  from c have "dropWhile is_space s \<noteq> []"
    by (auto simp: dropWhile_eq_Nil_conv)
  then obtain q r where "dropWhile is_space s = q # r"
    by (cases "dropWhile is_space s") auto
  with d show ?thesis
    by (simp add: quoted_at_def value_at_before_header [OF assms(1,3)]
        value_at_before_header [OF assms(2,3)])
qed

lemma equals_at_before_header:
  assumes "header key x" and "header key y" and "plain_key key"
  shows "equals_at (s @ x) = None \<longleftrightarrow> equals_at (s @ y) = None"
proof (cases "list_all is_space s")
  case True
  have "equals_at (s @ z) = None" if "header key z" for z
  proof -
    from header_Cons [OF that assms(3)] obtain k t where "z = k # t" "\<not> is_space k" "k \<noteq> CHR ''=''"
      by blast
    with True show ?thesis
      by (simp add: equals_at_def spaces_then)
  qed
  with assms show ?thesis
    by simp
next
  case False
  then obtain c where c: "c \<in> set s" "\<not> is_space c"
    by (auto simp: list_all_iff)
  then have d: "dropWhile is_space (s @ z) = dropWhile is_space s @ z" for z
    by (rule dropWhile_append1)
  from c have "dropWhile is_space s \<noteq> []"
    by (auto simp: dropWhile_eq_Nil_conv)
  then obtain e r where "dropWhile is_space s = e # r"
    by (cases "dropWhile is_space s") auto
  with d show ?thesis
    by (simp add: equals_at_def quoted_at_before_header [OF assms])
qed

lemma key_split_fails:
  assumes "header key x" and "plain_key key" and "length p < length key"
    and "strip_lit p x = Some r"
  shows "equals_at r = None"
proof -
  from assms(1) obtain t where x: "x = key @ t"
    by (auto simp: header_def)
  from assms(4) have "x = p @ r"
    by (simp add: strip_lit_Some)
  with x have "p @ r = key @ t"
    by simp
  with assms(3) obtain u where "key = p @ u" and r: "r = u @ t" and "u \<noteq> []"
    by (auto simp: append_eq_append_conv2)
  then obtain k u' where u: "u = k # u'" and "k \<in> set key"
    by (cases u) auto
  with assms(2) have "\<not> is_space k" and "k \<noteq> CHR ''=''"
    by (auto simp: plain_key_def list_all_iff)
  with r u show ?thesis
    by (simp add: equals_at_def)
qed

lemma strip_lit_before_header:
  assumes "header key x" and "header key y" and "plain_key key"
    and "length p \<le> length key" and "length p < length key \<or> s \<noteq> []"
  shows "(case strip_lit p (s @ x) of None \<Rightarrow> None | Some r \<Rightarrow> equals_at r) = None
     \<longleftrightarrow> (case strip_lit p (s @ y) of None \<Rightarrow> None | Some r \<Rightarrow> equals_at r) = None"
  using assms(4,5)
proof (induction s arbitrary: p)
  case Nil
  then have "length p < length key"
    by simp
  then have "(case strip_lit p z of None \<Rightarrow> None | Some r \<Rightarrow> equals_at r) = None"
    if "header key z" for z
    using key_split_fails [OF that assms(3)] by (auto split: option.splits)
  with assms show ?case
    by simp
next
  case (Cons c s)
  show ?case
  proof (cases p)
    case Nil
    then show ?thesis
      using equals_at_before_header [OF assms(1-3), of "c # s"] by simp
  next
    case (Cons a p')
    with Cons.prems have "length p' \<le> length key" and "length p' < length key \<or> s \<noteq> []"
      by auto
    from Cons.IH [OF this] Cons show ?thesis
      by simp
  qed
qed

lemma assign_at_before_header:
  assumes "header key x" and "header key y" and "plain_key key" and "s \<noteq> []"
  shows "assign_at key (s @ x) = None \<longleftrightarrow> assign_at key (s @ y) = None"
  unfolding assign_at_def using strip_lit_before_header [OF assms(1-3), of key s] assms(4)
  by simp

lemma search_assign_Some:
  assumes "search_assign anchored key bol s = Some (b, m, g, a)"
  shows "s = b @ m @ a \<and> assign_at key (m @ a) = Some (g, a)"
  using assms
proof (induction s arbitrary: bol b)
  case Nil
  then show ?case
    by simp
next
  case (Cons c s)
  show ?case
  proof (cases "if anchored \<longrightarrow> bol then assign_at key (c # s) else None")
    case None
    with Cons.prems obtain b' where "b = c # b'"
      and "search_assign anchored key (is_line_terminator c) s = Some (b', m, g, a)"
      by auto
    with Cons.IH show ?thesis
      by simp
  next
    case (Some gr)
    with Cons.prems have at: "assign_at key (c # s) = Some (g, a)" and b: "b = []"
      and m: "m = take (length (c # s) - length a) (c # s)"
      by (auto split: if_splits prod.splits)
    from assign_at_suffix [OF at] obtain m' where "c # s = m' @ a"
      by blast
    with m have "c # s = m @ a"
      by simp
    with at b show ?thesis
      by simp
  qed
qed

lemma search_assign_replaced:
  assumes "header key x" and "header key y" and "plain_key key"
    and "search_assign anchored key bol (b @ x) = Some (b, m, g, a)"
    and "assign_at key y = Some (g', a')"
  shows "search_assign anchored key bol (b @ y)
           = Some (b, take (length y - length a') y, g', a')"
  using assms(4)
proof (induction b arbitrary: bol)
  case Nil
  from header_Cons [OF assms(1,3)] obtain k t where x: "x = k # t"
    by blast
  from header_Cons [OF assms(2,3)] obtain k' t' where y: "y = k' # t'"
    by blast
  from Nil x have "anchored \<longrightarrow> bol"
    by (auto split: if_splits option.splits)
  with y assms(5) show ?case
    by simp
next
  case (Cons c b)
  let ?attempt = "\<lambda>z. if anchored \<longrightarrow> bol then assign_at key ((c # b) @ z) else None"
  from Cons.prems have none: "?attempt x = None"
    and rest: "search_assign anchored key (is_line_terminator c) (b @ x) = Some (b, m, g, a)"
    by (auto split: option.splits)
  from none have "?attempt y = None"
    using assign_at_before_header [OF assms(1-3), of "c # b"] by (auto split: if_splits)
  with Cons.IH [OF rest] show ?case
    by (auto split: if_splits)
qed

section \<open>Writing a version and reading it back\<close>

lemma substitute_plain: "CHR ''$'' \<notin> set t \<Longrightarrow> substitute t b m a = t"
  by (induction t b m a rule: substitute.induct) auto

lemma plain_key_version: "plain_key ''__version__''"
  by (simp add: plain_key_def is_space_def is_quote_def dquote_def squote_def)

lemma plain_key_pyproject: "plain_key ''version''"
  by (simp add: plain_key_def is_space_def is_quote_def dquote_def squote_def)

lemma search_assign_moved:
  assumes "header key x" and "plain_key key"
    and "search_assign anchored key bol (b @ x) = Some (b, m, g, a)"
    and "assign_at key (m' @ a') = Some (g', a')"
  shows "search_assign anchored key bol (b @ m' @ a') = Some (b, m', g', a')"
  using search_assign_replaced [OF assms(1) assign_at_header [OF assms(4)] assms(2,3,4)]
  by simp

lemma replace_then_search:
  assumes "plain_key key" and "CHR ''$'' \<notin> set key"
    and "search_assign anchored key True content = Some (b, m, g, a)"
    and "v \<noteq> []" and "list_all (\<lambda>c. \<not> is_quote c) v" and "CHR ''$'' \<notin> set v"
  shows "search_assign anchored key True
           (replace_first (Some (b, m, g, a)) content (key @ '' = '' @ [dquote] @ v @ [dquote]))
         = Some (b, key @ '' = '' @ [dquote] @ v @ [dquote], v, a)"
proof -
  let ?t = "key @ '' = '' @ [dquote] @ v @ [dquote]"
  from search_assign_Some [OF assms(3)] have content: "content = b @ m @ a"
    and at: "assign_at key (m @ a) = Some (g, a)"
    by simp_all
  have "CHR ''$'' \<notin> set ?t"
    using assms(2,6) by (simp add: dquote_def)
  then have sub: "substitute ?t b m a = ?t"
    by (rule substitute_plain)
  have new: "assign_at key (?t @ a) = Some (v, a)"
    using assign_at_template [OF assms(4,5), of key a] by simp
  have "search_assign anchored key True (b @ ?t @ a) = Some (b, ?t, v, a)"
  proof (rule search_assign_moved [OF _ assms(1)])
    show "header key (m @ a)"
      using at by (rule assign_at_header)
    show "search_assign anchored key True (b @ m @ a) = Some (b, m, g, a)"
      using assms(3) content by simp
    show "assign_at key (?t @ a) = Some (v, a)"
      by (rule new)
  qed
  then show ?thesis
    unfolding replace_first_def using sub by simp
qed

lemma split_on_not_Nil: "split_on d s \<noteq> []"
  by (induction s) (auto split: list.splits)

lemma split_on_chars: "x \<in> set s \<Longrightarrow> x = d \<or> (\<exists>p \<in> set (split_on d s). x \<in> set p)"
proof (induction s)
  case Nil
  then show ?case
    by simp
next
  case (Cons a s)
  show ?case
  proof (cases "a = d")
    case True
    with Cons show ?thesis
      by auto
  next
    case False
    obtain p0 ps where sp: "split_on d s = p0 # ps"
      using split_on_not_Nil [of d s] by (cases "split_on d s") auto
    with False have "split_on d (a # s) = (a # p0) # ps"
      by simp
    with Cons sp show ?thesis
      by auto
  qed
qed

lemma canonical_chars:
  assumes "canonical v"
  shows "v \<noteq> [] \<and> list_all (\<lambda>c. is_digit c \<or> c = CHR ''.'') v"
proof -
  from assms obtain a b c where sp: "split_on (CHR ''.'') v = [a, b, c]"
    and d: "list_all is_digit a" "list_all is_digit b" "list_all is_digit c"
    by (auto simp: canonical_def split: list.splits)
  have "v \<noteq> []"
    using sp by auto
  moreover have "set v \<subseteq> insert (CHR ''.'') (set a \<union> set b \<union> set c)"
    using split_on_chars [of _ v "CHR ''.''"] sp by auto
  ultimately show ?thesis
    using d by (auto simp: list_all_iff)
qed

lemma digit_or_dot_plain:
  assumes "is_digit c \<or> c = CHR ''.''"
  shows "\<not> is_quote c \<and> c \<noteq> CHR ''$''"
  using assms by (auto simp: is_digit_def is_quote_def dquote_def squote_def)

lemma canonical_plain:
  assumes "canonical v"
  shows "v \<noteq> []" and "list_all (\<lambda>c. \<not> is_quote c) v" and "CHR ''$'' \<notin> set v"
  using canonical_chars [OF assms] digit_or_dot_plain by (auto simp: list_all_iff)

lemma readPythonVersion_Some_file:
  assumes "readPythonVersion w p = Some g"
  shows "\<exists>content b m a. files w p = Some content \<and> version_re content = Some (b, m, g, a)"
  using assms by (auto simp: readPythonVersion_def readFileSync_def split: option.splits)

text \<open>
  C7. For every version string of the canonical form and every writable file that holds a
  version constant, \<open>updatePythonVersion\<close> succeeds and \<open>readPythonVersion\<close> then reads
  back exactly that string.
\<close>

theorem update_then_read:
  assumes "canonical v" and "readPythonVersion w filePath \<noteq> None" and "writable w filePath"
  shows "fst (updatePythonVersion w filePath v)
       \<and> readPythonVersion (snd (updatePythonVersion w filePath v)) filePath = Some v"
proof -
  from assms(2) obtain g where "readPythonVersion w filePath = Some g"
    by auto
  from readPythonVersion_Some_file [OF this] obtain content b m a
    where content: "files w filePath = Some content"
      and found: "search_assign False ''__version__'' True content = Some (b, m, g, a)"
    by (auto simp: version_re_def)
  have "search_assign False ''__version__'' True
          (replace_first (Some (b, m, g, a)) content
             (''__version__'' @ '' = '' @ [dquote] @ v @ [dquote]))
        = Some (b, ''__version__'' @ '' = '' @ [dquote] @ v @ [dquote], v, a)"
    using plain_key_version _ found canonical_plain [OF assms(1)]
    by (rule replace_then_search) simp
  with content found assms(3) show ?thesis
    by (simp add: updatePythonVersion_def readPythonVersion_def readFileSync_def
        writeFileSync_def version_re_def)
qed


theorem update_then_read_witness:
  "canonical ''1.4.0''
   \<and> readPythonVersion
        \<lparr>files = [''a.py'' \<mapsto> ''# pkg'' @ [CHR 0x0A] @ ''__version__='' @ [squote] @ ''0.9.0'' @ [squote] @ [CHR 0x0A]],
         writable = (\<lambda>p. True)\<rparr> ''a.py'' = Some ''0.9.0''
   \<and> readPythonVersion
        (snd (updatePythonVersion
           \<lparr>files = [''a.py'' \<mapsto> ''# pkg'' @ [CHR 0x0A] @ ''__version__='' @ [squote] @ ''0.9.0'' @ [squote] @ [CHR 0x0A]],
            writable = (\<lambda>p. True)\<rparr> ''a.py'' ''1.4.0'')) ''a.py'' = Some ''1.4.0''"
proof -
  let ?w = "\<lparr>files = [''a.py'' \<mapsto> ''# pkg'' @ [CHR 0x0A] @ ''__version__='' @ [squote] @ ''0.9.0'' @ [squote] @ [CHR 0x0A]],
         writable = (\<lambda>p. True)\<rparr>"
  have c: "canonical ''1.4.0''"
    by (simp add: canonical_def is_digit_def)
  have r: "readPythonVersion ?w ''a.py'' = Some ''0.9.0''"
    by (simp add: readPythonVersion_def readFileSync_def version_re_def assign_at_def
        equals_at_def quoted_at_def value_at_def is_space_def is_quote_def dquote_def squote_def)
  from update_then_read [of "''1.4.0''" ?w "''a.py''"] c r show ?thesis
    by simp
qed

section \<open>What the prepare step writes\<close>

lemma updatePythonVersion_files:
  "q \<noteq> p \<Longrightarrow> files (snd (updatePythonVersion w p v)) q = files w q"
  by (simp add: updatePythonVersion_def readFileSync_def writeFileSync_def split: option.splits)

lemma updatePythonVersion_writable: "writable (snd (updatePythonVersion w p v)) = writable w"
  by (simp add: updatePythonVersion_def readFileSync_def writeFileSync_def split: option.splits)

lemma updatePythonVersion_present:
  "files w q \<noteq> None \<Longrightarrow> files (snd (updatePythonVersion w p v)) q \<noteq> None"
  by (simp add: updatePythonVersion_def readFileSync_def writeFileSync_def split: option.splits)

lemma updatePythonVersion_ok:
  "files w p \<noteq> None \<Longrightarrow> writable w p \<Longrightarrow> fst (updatePythonVersion w p v)"
  by (auto simp: updatePythonVersion_def readFileSync_def writeFileSync_def split: option.splits)

lemma updatePyprojectVersion_files:
  "q \<noteq> p \<Longrightarrow> files (snd (updatePyprojectVersion w p v)) q = files w q"
  by (simp add: updatePyprojectVersion_def readFileSync_def writeFileSync_def split: option.splits)

lemma updatePyprojectVersion_writable: "writable (snd (updatePyprojectVersion w p v)) = writable w"
  by (simp add: updatePyprojectVersion_def readFileSync_def writeFileSync_def
      split: option.splits)

lemma updatePyprojectVersion_ok:
  "files w p \<noteq> None \<Longrightarrow> writable w p \<Longrightarrow> fst (updatePyprojectVersion w p v)"
  by (auto simp: updatePyprojectVersion_def readFileSync_def writeFileSync_def
      split: option.splits)

lemma updatePyprojectVersion_content:
  assumes "fst (updatePyprojectVersion w p v)" and "files w p = Some content"
  shows "files (snd (updatePyprojectVersion w p v)) p
           = Some (replace_first (pyproject_re content) content
                     (''version = '' @ [dquote] @ v @ [dquote]))"
  using assms
  by (auto simp: updatePyprojectVersion_def readFileSync_def writeFileSync_def
      split: option.splits if_splits)

lemma updatePackageJson_files:
  "q \<noteq> p \<Longrightarrow> files (snd (updatePackageJson w p n v)) q = files w q"
  by (simp add: updatePackageJson_def writeFileSync_def)

lemma sync_versions_files:
  assumes "q \<noteq> bot_package L" and "q \<noteq> api_package L"
  shows "files (snd (sync_versions L w)) q = files w q"
proof (cases "getVersion L w ''bot''")
  case None
  then show ?thesis
    by (simp add: sync_versions_def)
next
  case bot: (Some bv)
  show ?thesis
  proof (cases "getVersion L w ''api''")
    case None
    with bot show ?thesis
      by (simp add: sync_versions_def)
  next
    case (Some av)
    let ?w1 = "snd (updatePackageJson w (bot_package L) ''nightscout-backup-bot'' bv)"
    let ?w2 = "snd (updatePackageJson ?w1 (api_package L) ''nightscout-backup-api'' av)"
    have "snd (sync_versions L w) = w \<or> snd (sync_versions L w) = ?w2"
      using bot Some by (simp add: sync_versions_def split: prod.splits)
    moreover have "files ?w2 q = files w q"
      using assms by (simp add: updatePackageJson_files)
    ultimately show ?thesis
      by auto
  qed
qed

lemma syncWrapperVersions_files:
  assumes "q \<noteq> bot_package L" and "q \<noteq> api_package L"
  shows "files (snd (syncWrapperVersions L w bv av)) q = files w q"
  using sync_versions_files [OF assms, of w]
  by (simp add: syncWrapperVersions_def case_prod_beta)

lemma update_bot_files:
  assumes "q \<noteq> botVersionFile cfg" and "pyprojectFile cfg \<noteq> Some q"
  shows "files (fst (snd (update_bot cfg bv w log))) q = files w q"
  using assms
  by (auto simp: update_bot_def Let_def case_prod_beta updatePythonVersion_files
      updatePyprojectVersion_files split: option.splits)

lemma update_bot_writable: "writable (fst (snd (update_bot cfg bv w log))) = writable w"
  by (auto simp: update_bot_def Let_def case_prod_beta updatePythonVersion_writable
      updatePyprojectVersion_writable split: option.splits)

lemma update_api_files:
  assumes "q \<noteq> apiVersionFile cfg"
  shows "files (fst (snd (update_api cfg av w log))) q = files w q"
  using assms by (simp add: update_api_def case_prod_beta updatePythonVersion_files)

lemma update_files_files:
  assumes "bumpApi d \<longrightarrow> q \<noteq> apiVersionFile cfg"
    and "bumpBot d \<longrightarrow> q \<noteq> botVersionFile cfg \<and> pyprojectFile cfg \<noteq> Some q"
  shows "files (fst (snd (update_files cfg d bv av w log))) q = files w q"
proof (cases "bumpBot d")
  case True
  with assms show ?thesis
    by (cases "update_bot cfg bv w log")
      (auto simp: update_files_def update_api_files
        dest: arg_cong [where f = "\<lambda>r. files (fst (snd r)) q"] simp: update_bot_files
        split: option.splits)
next
  case False
  with assms show ?thesis
    by (simp add: update_files_def update_api_files)
qed

lemma prepare_updates_Some:
  assumes "prepare_updates cfg ctx w = Some (out, w1, log1)"
  obtains (unreadable) "out = Throws ''Could not read current versions from Python files''"
      and "w1 = w"
    | (updated) cb ca bv av log0 res
    where "readPythonVersion w (botVersionFile cfg) = Some cb"
      and "readPythonVersion w (apiVersionFile cfg) = Some ca"
      and "(if bumpBot (analyzeCommits (commits ctx))
            then calculateNextVersion cb (nextRelease_type ctx) else Some cb) = Some bv"
      and "(if bumpApi (analyzeCommits (commits ctx))
            then calculateNextVersion ca (nextRelease_type ctx) else Some ca) = Some av"
      and "update_files cfg (analyzeCommits (commits ctx)) bv av w log0 = (res, w1, log1)"
      and "out = (case res of None \<Rightarrow> Returns (bv, av) | Some msg \<Rightarrow> Throws msg)"
proof (cases "falsy (readPythonVersion w (botVersionFile cfg))
    \<or> falsy (readPythonVersion w (apiVersionFile cfg))")
  case True
  with assms show ?thesis
    by (intro unreadable) (simp_all add: prepare_updates_def)
next
  case False
  then obtain cb ca where cb: "readPythonVersion w (botVersionFile cfg) = Some cb"
    and ca: "readPythonVersion w (apiVersionFile cfg) = Some ca"
    by (auto simp: falsy_def split: option.splits)
  let ?d = "analyzeCommits (commits ctx)"
  let ?bot = "if bumpBot ?d then calculateNextVersion cb (nextRelease_type ctx) else Some cb"
  let ?api = "if bumpApi ?d then calculateNextVersion ca (nextRelease_type ctx) else Some ca"
  have unfolded: "prepare_updates cfg ctx w =
      (case (?bot, ?api) of
         (Some bv, Some av) \<Rightarrow>
           (case update_files cfg ?d bv av w
                   ([LogUpdating, LogCurrentBot cb, LogCurrentApi ca] @
                    (if bumpBot ?d then [LogBumpingBot cb bv] else []) @
                    (if bumpApi ?d then [LogBumpingApi ca av] else [])) of
              (Some msg, w1, log1) \<Rightarrow> Some (Throws msg, w1, log1)
            | (None, w1, log1) \<Rightarrow> Some (Returns (bv, av), w1, log1))
       | _ \<Rightarrow> None)"
    using cb ca False by (simp add: prepare_updates_def Let_def)
  obtain bv av where calc: "?bot = Some bv" "?api = Some av"
    using assms unfolding unfolded by (cases ?bot; cases ?api) simp_all
  let ?log0 = "[LogUpdating, LogCurrentBot cb, LogCurrentApi ca] @
               (if bumpBot ?d then [LogBumpingBot cb bv] else []) @
               (if bumpApi ?d then [LogBumpingApi ca av] else [])"
  obtain res wu logu where upd: "update_files cfg ?d bv av w ?log0 = (res, wu, logu)"
    by (cases "update_files cfg ?d bv av w ?log0")
  from assms have "wu = w1 \<and> logu = log1
      \<and> out = (case res of None \<Rightarrow> Returns (bv, av) | Some msg \<Rightarrow> Throws msg)"
    unfolding unfolded calc using upd by (cases res) auto
  with cb ca calc upd show ?thesis
    by (intro updated) auto
qed

lemma prepare_updates_files:
  assumes "prepare_updates cfg ctx w = Some (out, w1, log1)"
    and "bumpApi (analyzeCommits (commits ctx)) \<longrightarrow> q \<noteq> apiVersionFile cfg"
    and "bumpBot (analyzeCommits (commits ctx))
           \<longrightarrow> q \<noteq> botVersionFile cfg \<and> pyprojectFile cfg \<noteq> Some q"
  shows "files w1 q = files w q"
  using assms(1)
proof (cases rule: prepare_updates_Some)
  case unreadable
  then show ?thesis
    by simp
next
  case (updated cb ca bv av log0 res)
  from update_files_files [OF assms(2,3), of bv av w log0] updated(5) show ?thesis
    by simp
qed

lemma prepare_Some:
  assumes "prepare L cfg ctx w = Some (out, w', log)"
  obtains (returned) bv av w1 log1
    where "prepare_updates cfg ctx w = Some (Returns (bv, av), w1, log1)"
      and "out = Returns \<lparr>botVersion = bv, apiVersion = av, version = bv\<rparr>"
      and "w' = snd (syncWrapperVersions L w1 bv av)"
    | (thrown) msg
    where "prepare_updates cfg ctx w = Some (Throws msg, w', log)"
      and "out = Throws msg"
proof (cases "prepare_updates cfg ctx w")
  case None
  with assms show ?thesis
    by (simp add: prepare_def)
next
  case (Some u)
  obtain out1 w1 log1 where u: "u = (out1, w1, log1)"
    by (cases u)
  show ?thesis
  proof (cases out1)
    case (Returns r)
    obtain bv av where "r = (bv, av)"
      by (cases r)
    with assms Some u Returns show ?thesis
      by (intro returned [of bv av w1 log1]) (auto simp: prepare_def case_prod_beta)
  next
    case (Throws msg)
    with assms Some u show ?thesis
      by (intro thrown [of msg]) (auto simp: prepare_def)
  qed
qed

lemma prepare_world:
  assumes "prepare L cfg ctx w = Some (out, w', log)"
    and "q \<noteq> bot_package L" and "q \<noteq> api_package L"
  shows "\<exists>out1 w1 log1. prepare_updates cfg ctx w = Some (out1, w1, log1)
           \<and> files w' q = files w1 q"
  using assms(1)
proof (cases rule: prepare_Some)
  case (returned bv av w1 log1)
  then show ?thesis
    using syncWrapperVersions_files [OF assms(2,3), of w1 bv av] by simp
next
  case (thrown msg)
  then show ?thesis
    by simp
qed

lemma prepare_files:
  assumes "prepare L cfg ctx w = Some (out, w', log)"
    and "bumpApi (analyzeCommits (commits ctx)) \<longrightarrow> q \<noteq> apiVersionFile cfg"
    and "q \<noteq> bot_package L" and "q \<noteq> api_package L"
    and "bumpBot (analyzeCommits (commits ctx))
           \<longrightarrow> q \<noteq> botVersionFile cfg \<and> pyprojectFile cfg \<noteq> Some q"
  shows "files w' q = files w q"
proof -
  from prepare_world [OF assms(1,3,4)] obtain out1 w1 log1
    where "prepare_updates cfg ctx w = Some (out1, w1, log1)" and "files w' q = files w1 q"
    by blast
  with prepare_updates_files [OF _ assms(2,5)] show ?thesis
    by simp
qed

section \<open>Properties of the prepare step\<close>

lemma readPythonVersion_present: "readPythonVersion w p = Some g \<Longrightarrow> files w p \<noteq> None"
  by (auto simp: readPythonVersion_def readFileSync_def split: option.splits)

lemma readPythonVersion_not_empty: "readPythonVersion w p = Some g \<Longrightarrow> g \<noteq> []"
proof -
  assume "readPythonVersion w p = Some g"
  from readPythonVersion_Some_file [OF this] obtain content b m a
    where "search_assign False ''__version__'' True content = Some (b, m, g, a)"
    by (auto simp: version_re_def)
  from search_assign_Some [OF this] have "assign_at ''__version__'' (m @ a) = Some (g, a)"
    by simp
  from assign_at_Some [OF this] show ?thesis
    by blast
qed

text \<open>
  C6. If the current version of either component cannot be read (the file cannot be read, or
  holds no version constant), \<open>prepare\<close> throws before any write: the world it leaves is the
  world it found.
\<close>

theorem prepare_unreadable:
  assumes "readPythonVersion w (botVersionFile cfg) = None
         \<or> readPythonVersion w (apiVersionFile cfg) = None"
  shows "prepare L cfg ctx w
           = Some (Throws ''Could not read current versions from Python files'', w,
                   [LogUpdating])"
  using assms by (auto simp: prepare_def prepare_updates_def falsy_def)

theorem prepare_unreadable_witness:
  "readPythonVersion
      \<lparr>files = [''bot.py'' \<mapsto> ''# no constant here''], writable = (\<lambda>p. True)\<rparr> ''bot.py'' = None
   \<and> readPythonVersion
      \<lparr>files = [''bot.py'' \<mapsto> ''# no constant here''], writable = (\<lambda>p. True)\<rparr> ''api.py'' = None
   \<and> prepare
        \<lparr>bot_init = ''bot.py'', api_init = ''api.py'',
         bot_package = ''bot.json'', api_package = ''api.json''\<rparr>
        \<lparr>botVersionFile = ''bot.py'', apiVersionFile = ''api.py'', pyprojectFile = None\<rparr>
        \<lparr>commits = [], nextRelease_type = ''patch''\<rparr>
        \<lparr>files = [''bot.py'' \<mapsto> ''# no constant here''], writable = (\<lambda>p. True)\<rparr>
     = Some (Throws ''Could not read current versions from Python files'',
             \<lparr>files = [''bot.py'' \<mapsto> ''# no constant here''], writable = (\<lambda>p. True)\<rparr>,
             [LogUpdating])"
proof -
  let ?w = "\<lparr>files = [''bot.py'' \<mapsto> ''# no constant here''], writable = (\<lambda>p. True)\<rparr>"
  have bot: "readPythonVersion ?w ''bot.py'' = None"
    by (simp add: readPythonVersion_def readFileSync_def version_re_def assign_at_def)
  have api: "readPythonVersion ?w ''api.py'' = None"
    by (simp add: readPythonVersion_def readFileSync_def)
  have "readPythonVersion ?w
          (botVersionFile
             \<lparr>botVersionFile = ''bot.py'', apiVersionFile = ''api.py'', pyprojectFile = None\<rparr>)
        = None
      \<or> readPythonVersion ?w
          (apiVersionFile
             \<lparr>botVersionFile = ''bot.py'', apiVersionFile = ''api.py'', pyprojectFile = None\<rparr>)
        = None"
    using bot by simp
  from prepare_unreadable [OF this] bot api show ?thesis
    by blast
qed

lemma update_bot_ok:
  assumes "files w (botVersionFile cfg) \<noteq> None" and "writable w (botVersionFile cfg)"
    and "case pyprojectFile cfg of None \<Rightarrow> True | Some p \<Rightarrow> writable w p"
  shows "fst (update_bot cfg bv w log) = None"
proof -
  let ?w1 = "snd (updatePythonVersion w (botVersionFile cfg) bv)"
  have ok: "fst (updatePythonVersion w (botVersionFile cfg) bv)"
    using assms(1,2) by (rule updatePythonVersion_ok)
  have "fst (updatePyprojectVersion ?w1 p bv)"
    if "pyprojectFile cfg = Some p" and "existsSync ?w1 p" for p
  proof (rule updatePyprojectVersion_ok)
    show "files ?w1 p \<noteq> None"
      using that(2) by (simp add: existsSync_def)
    show "writable ?w1 p"
      using assms(3) that(1) by (simp add: updatePythonVersion_writable)
  qed
  with ok show ?thesis
    by (auto simp: update_bot_def Let_def case_prod_beta split: option.splits)
qed

lemma analyzeCommits_feat_bot:
  "analyzeCommits [\<lparr>message = ''feat(bot): x''\<rparr>] = \<lparr>bumpBot = True, bumpApi = False\<rparr>"
  by (simp add: analyzeCommits_def matches_any_def bot_pattern_def api_pattern_def
      canonicalize_def)

lemma next_minor_of_2_0_0: "calculateNextVersion ''2.0.0'' ''minor'' = Some ''2.1.0''"
  by (simp add: number_defs)

text \<open>
  C5. With the bot at \<open>2.0.0\<close>, the api at \<open>1.5.2\<close>, the release type \<open>minor\<close> and the one
  commit \<open>feat(bot): x\<close>, \<open>prepare\<close> returns the bot version \<open>2.1.0\<close>, the api version
  \<open>1.5.2\<close> unchanged and \<open>2.1.0\<close> as the primary version, provided that the files it
  rewrites can be written; and it leaves the file of the api version as it was, when that file is
  neither the \<open>pyproject.toml\<close> nor a wrapper's \<open>package.json\<close>.
\<close>

theorem prepare_bot_only_minor:
  assumes "readPythonVersion w (botVersionFile cfg) = Some ''2.0.0''"
    and "readPythonVersion w (apiVersionFile cfg) = Some ''1.5.2''"
    and "nextRelease_type ctx = ''minor''"
    and "commits ctx = [\<lparr>message = ''feat(bot): x''\<rparr>]"
    and "writable w (botVersionFile cfg)"
    and "case pyprojectFile cfg of None \<Rightarrow> True | Some p \<Rightarrow> writable w p"
  shows "\<exists>w' log.
           prepare L cfg ctx w
             = Some (Returns \<lparr>botVersion = ''2.1.0'', apiVersion = ''1.5.2'',
                              version = ''2.1.0''\<rparr>, w', log)
         \<and> (pyprojectFile cfg \<noteq> Some (apiVersionFile cfg)
              \<and> apiVersionFile cfg \<noteq> bot_package L \<and> apiVersionFile cfg \<noteq> api_package L
            \<longrightarrow> files w' (apiVersionFile cfg) = files w (apiVersionFile cfg))"
proof -
  let ?d = "analyzeCommits (commits ctx)"
  let ?log0 = "[LogUpdating, LogCurrentBot ''2.0.0'', LogCurrentApi ''1.5.2'',
                LogBumpingBot ''2.0.0'' ''2.1.0'']"
  have d: "?d = \<lparr>bumpBot = True, bumpApi = False\<rparr>"
    using assms(4) analyzeCommits_feat_bot by simp
  have "fst (update_bot cfg ''2.1.0'' w ?log0) = None"
    using readPythonVersion_present [OF assms(1)] assms(5,6) by (rule update_bot_ok)
  then have "fst (update_files cfg ?d ''2.1.0'' ''1.5.2'' w ?log0) = None"
    using d by (simp add: update_files_def case_prod_beta split: option.splits)
  then obtain w1 log1
    where "update_files cfg ?d ''2.1.0'' ''1.5.2'' w ?log0 = (None, w1, log1)"
    by (cases "update_files cfg ?d ''2.1.0'' ''1.5.2'' w ?log0") auto
  then have "prepare_updates cfg ctx w = Some (Returns (''2.1.0'', ''1.5.2''), w1, log1)"
    using assms(1,2,3) d next_minor_of_2_0_0
    by (simp add: prepare_updates_def falsy_def Let_def)
  then obtain w' log where run: "prepare L cfg ctx w
      = Some (Returns \<lparr>botVersion = ''2.1.0'', apiVersion = ''1.5.2'', version = ''2.1.0''\<rparr>,
              w', log)"
    by (simp add: prepare_def case_prod_beta)
  have "botVersionFile cfg \<noteq> apiVersionFile cfg"
    using assms(1,2) by auto
  then have "files w' (apiVersionFile cfg) = files w (apiVersionFile cfg)"
    if "pyprojectFile cfg \<noteq> Some (apiVersionFile cfg)"
      and "apiVersionFile cfg \<noteq> bot_package L" and "apiVersionFile cfg \<noteq> api_package L"
    using that d by (intro prepare_files [OF run]) auto
  with run show ?thesis
    by blast
qed

theorem prepare_bot_only_minor_witness:
  "\<exists>w' log.
     prepare example_layout example_config
       \<lparr>commits = [\<lparr>message = ''feat(bot): x''\<rparr>], nextRelease_type = ''minor''\<rparr>
       (example_world ''2.0.0'' ''1.5.2'' [])
     = Some (Returns \<lparr>botVersion = ''2.1.0'', apiVersion = ''1.5.2'', version = ''2.1.0''\<rparr>,
             w', log)
   \<and> files w' ''api.py'' = Some (version_file ''1.5.2'')"
proof -
  let ?w = "example_world ''2.0.0'' ''1.5.2'' []"
  let ?ctx = "\<lparr>commits = [\<lparr>message = ''feat(bot): x''\<rparr>], nextRelease_type = ''minor''\<rparr>"
  have bot: "readPythonVersion ?w (botVersionFile example_config) = Some ''2.0.0''"
    by (simp add: example_defs readPythonVersion_def readFileSync_def pattern_defs)
  have api: "readPythonVersion ?w (apiVersionFile example_config) = Some ''1.5.2''"
    by (simp add: example_defs readPythonVersion_def readFileSync_def pattern_defs)
  have release: "nextRelease_type ?ctx = ''minor''"
    and one: "commits ?ctx = [\<lparr>message = ''feat(bot): x''\<rparr>]"
    by simp_all
  have can: "writable ?w (botVersionFile example_config)"
    and can': "case pyprojectFile example_config of None \<Rightarrow> True | Some p \<Rightarrow> writable ?w p"
    by (simp_all add: example_defs)
  from prepare_bot_only_minor [OF bot api release one can can', of example_layout]
  obtain w' log where run: "prepare example_layout example_config ?ctx ?w
      = Some (Returns \<lparr>botVersion = ''2.1.0'', apiVersion = ''1.5.2'', version = ''2.1.0''\<rparr>,
              w', log)"
    and frame: "pyprojectFile example_config \<noteq> Some (apiVersionFile example_config)
        \<and> apiVersionFile example_config \<noteq> bot_package example_layout
        \<and> apiVersionFile example_config \<noteq> api_package example_layout
      \<longrightarrow> files w' (apiVersionFile example_config) = files ?w (apiVersionFile example_config)"
    by blast
  from frame have "files w' ''api.py'' = Some (version_file ''1.5.2'')"
    by (simp add: example_defs)
  with run show ?thesis
    by blast
qed

lemma js_to_string_plain:
  "js_to_string x \<noteq> [] \<and> list_all (\<lambda>c. \<not> is_quote c \<and> c \<noteq> CHR ''$'') (js_to_string x)"
proof (cases x)
  case Undefined
  then show ?thesis
    by (simp add: js_to_string_def is_quote_def dquote_def squote_def)
next
  case NaN
  then show ?thesis
    by (simp add: js_to_string_def is_quote_def dquote_def squote_def)
next
  case (Num n)
  have "list_all (\<lambda>c. \<not> is_quote c \<and> c \<noteq> CHR ''$'') (digits_of n)"
    using digits_of_all_digits [of n] digit_or_dot_plain by (auto simp: list_all_iff)
  with Num show ?thesis
    by (simp add: js_to_string_def digits_of_not_Nil)
qed

lemma calculateNextVersion_plain:
  assumes "releaseType \<in> {''major'', ''minor'', ''patch''}"
    and "calculateNextVersion cv releaseType = Some v"
  shows "v \<noteq> [] \<and> list_all (\<lambda>c. \<not> is_quote c) v \<and> CHR ''$'' \<notin> set v"
proof -
  let ?P = "\<lambda>c. \<not> is_quote c \<and> c \<noteq> CHR ''$''"
  have plain: "list_all ?P (js_to_string x)" and filled: "js_to_string x \<noteq> []" for x
    using js_to_string_plain [of x] by simp_all
  have lits: "list_all ?P ''.0.0''" "list_all ?P ''.''" "list_all ?P ''.0''"
    by (simp_all add: is_quote_def dquote_def squote_def)
  from assms obtain x y z where
    "v = js_to_string x @ ''.0.0''
     \<or> v = js_to_string x @ ''.'' @ js_to_string y @ ''.0''
     \<or> v = js_to_string x @ ''.'' @ js_to_string y @ ''.'' @ js_to_string z"
    by (auto simp: calculateNextVersion_def Let_def split: option.splits if_splits)
  then have "v \<noteq> [] \<and> list_all ?P v"
  proof (elim disjE)
    assume "v = js_to_string x @ ''.0.0''"
    then show ?thesis
      using plain [of x] lits(1) by (simp only: list_all_append) simp
  next
    assume "v = js_to_string x @ ''.'' @ js_to_string y @ ''.0''"
    then show ?thesis
      using plain [of x] plain [of y] lits(2,3) by (simp only: list_all_append) simp
  next
    assume "v = js_to_string x @ ''.'' @ js_to_string y @ ''.'' @ js_to_string z"
    then show ?thesis
      using plain [of x] plain [of y] plain [of z] lits(2) filled [of x]
      by (simp only: list_all_append) simp
  qed
  then show ?thesis
    by (auto simp: list_all_iff)
qed

lemma update_bot_pyproject:
  assumes "pyprojectFile cfg = Some p" and "p \<noteq> []" and "p \<noteq> botVersionFile cfg"
    and "files w p = Some content" and "update_bot cfg bv w log = (None, w1, log1)"
  shows "files w1 p = Some (replace_first (pyproject_re content) content
                              (''version = '' @ [dquote] @ bv @ [dquote]))"
proof -
  let ?wb = "snd (updatePythonVersion w (botVersionFile cfg) bv)"
  have present: "files ?wb p = Some content"
    using assms(3,4) by (simp add: updatePythonVersion_files)
  then have "existsSync ?wb p"
    by (simp add: existsSync_def)
  with assms(1,2,5) have "fst (updatePyprojectVersion ?wb p bv)"
    and "w1 = snd (updatePyprojectVersion ?wb p bv)"
    by (auto simp: update_bot_def Let_def case_prod_beta split: if_splits)
  with present show ?thesis
    by (simp add: updatePyprojectVersion_content)
qed

lemma update_files_pyproject:
  assumes "pyprojectFile cfg = Some p" and "p \<noteq> []" and "p \<noteq> botVersionFile cfg"
    and "p \<noteq> apiVersionFile cfg" and "files w p = Some content" and "bumpBot d"
    and "update_files cfg d bv av w log = (None, w1, log1)"
  shows "files w1 p = Some (replace_first (pyproject_re content) content
                              (''version = '' @ [dquote] @ bv @ [dquote]))"
proof -
  obtain wb logb where bot: "update_bot cfg bv w log = (None, wb, logb)"
    using assms(6,7)
    by (cases "update_bot cfg bv w log") (auto simp: update_files_def split: option.splits)
  have "files w1 p = files wb p"
  proof (cases "bumpApi d")
    case True
    with assms(6,7) bot have "w1 = fst (snd (update_api cfg av wb logb))"
      by (simp add: update_files_def)
    with assms(4) show ?thesis
      by (simp add: update_api_files)
  next
    case False
    with assms(6,7) bot show ?thesis
      by (simp add: update_files_def)
  qed
  with update_bot_pyproject [OF assms(1-3,5) bot] show ?thesis
    by simp
qed

lemma pyproject_replaced_field:
  assumes "version_field content \<noteq> None"
    and "v \<noteq> []" and "list_all (\<lambda>c. \<not> is_quote c) v" and "CHR ''$'' \<notin> set v"
  shows "version_field (replace_first (pyproject_re content) content
                          (''version = '' @ [dquote] @ v @ [dquote])) = Some v"
proof -
  from assms(1) obtain b m g a where
    found: "search_assign True ''version'' True content = Some (b, m, g, a)"
    by (auto simp: version_field_def pyproject_re_def)
  have "search_assign True ''version'' True
          (replace_first (Some (b, m, g, a)) content
             (''version'' @ '' = '' @ [dquote] @ v @ [dquote]))
        = Some (b, ''version'' @ '' = '' @ [dquote] @ v @ [dquote], v, a)"
    using plain_key_pyproject _ found assms(2-4) by (rule replace_then_search) simp
  with found show ?thesis
    by (simp add: version_field_def pyproject_re_def)
qed

lemma updatePyprojectVersion_cases:
  "files (snd (updatePyprojectVersion w p v)) p = files w p
   \<or> (\<exists>content. files w p = Some content
        \<and> files (snd (updatePyprojectVersion w p v)) p
            = Some (replace_first (pyproject_re content) content
                      (''version = '' @ [dquote] @ v @ [dquote])))"
  by (auto simp: updatePyprojectVersion_def readFileSync_def writeFileSync_def
      split: option.splits)

lemma update_bot_pyproject_cases:
  assumes "pyprojectFile cfg = Some p" and "p \<noteq> botVersionFile cfg"
  shows "files (fst (snd (update_bot cfg bv w log))) p = files w p
   \<or> (\<exists>content. files w p = Some content
        \<and> files (fst (snd (update_bot cfg bv w log))) p
            = Some (replace_first (pyproject_re content) content
                      (''version = '' @ [dquote] @ bv @ [dquote])))"
proof -
  let ?wb = "snd (updatePythonVersion w (botVersionFile cfg) bv)"
  have same: "files ?wb p = files w p"
    using assms(2) by (simp add: updatePythonVersion_files)
  have "fst (snd (update_bot cfg bv w log)) = ?wb
      \<or> fst (snd (update_bot cfg bv w log)) = snd (updatePyprojectVersion ?wb p bv)"
    using assms(1) by (simp add: update_bot_def Let_def case_prod_beta)
  with same updatePyprojectVersion_cases [of ?wb p bv] show ?thesis
    by auto
qed

lemma update_files_pyproject_cases:
  assumes "pyprojectFile cfg = Some p" and "p \<noteq> botVersionFile cfg"
    and "p \<noteq> apiVersionFile cfg"
  shows "files (fst (snd (update_files cfg d bv av w log))) p = files w p
   \<or> (bumpBot d \<and> (\<exists>content. files w p = Some content
        \<and> files (fst (snd (update_files cfg d bv av w log))) p
            = Some (replace_first (pyproject_re content) content
                      (''version = '' @ [dquote] @ bv @ [dquote]))))"
proof (cases "bumpBot d")
  case False
  with assms(3) show ?thesis
    by (simp add: update_files_files)
next
  case True
  obtain res wb logb where bot: "update_bot cfg bv w log = (res, wb, logb)"
    by (cases "update_bot cfg bv w log")
  have "files (fst (snd (update_files cfg d bv av w log))) p = files wb p"
    using True bot assms(3)
    by (cases res) (simp_all add: update_files_def update_api_files)
  with update_bot_pyproject_cases [OF assms(1,2), of bv w log] bot True show ?thesis
    by simp
qed

text \<open>
  The model covers every run in which the two current versions are canonical texts with
  components below \<open>2^53\<close>.
\<close>

lemma version_text_not_Nil: "version_text v \<noteq> []"
  by (cases v) (simp add: version_text_def digits_of_not_Nil)

lemma calculateNextVersion_covers:
  assumes "a < 9007199254740992" and "b < 9007199254740992" and "c < 9007199254740992"
  shows "calculateNextVersion (version_text (a, b, c)) releaseType \<noteq> None"
  using assms
  by (simp add: calculateNextVersion_def Let_def split_version_text element_def
      Number_js_digits_of)

lemma prepare_covers:
  assumes "readPythonVersion w (botVersionFile cfg) = Some (version_text (a, b, c))"
    and "a < 9007199254740992" and "b < 9007199254740992" and "c < 9007199254740992"
    and "readPythonVersion w (apiVersionFile cfg) = Some (version_text (a', b', c'))"
    and "a' < 9007199254740992" and "b' < 9007199254740992" and "c' < 9007199254740992"
  shows "prepare L cfg ctx w \<noteq> None"
proof -
  let ?d = "analyzeCommits (commits ctx)"
  obtain bv where bv: "(if bumpBot ?d
      then calculateNextVersion (version_text (a, b, c)) (nextRelease_type ctx)
      else Some (version_text (a, b, c))) = Some bv"
    using calculateNextVersion_covers [OF assms(2-4), of "nextRelease_type ctx"]
    by (cases "bumpBot ?d") auto
  obtain av where av: "(if bumpApi ?d
      then calculateNextVersion (version_text (a', b', c')) (nextRelease_type ctx)
      else Some (version_text (a', b', c'))) = Some av"
    using calculateNextVersion_covers [OF assms(6-8), of "nextRelease_type ctx"]
    by (cases "bumpApi ?d") auto
  have "prepare_updates cfg ctx w \<noteq> None"
    using assms(1,5) bv av
    by (simp add: prepare_updates_def falsy_def Let_def version_text_not_Nil
        split: prod.splits option.splits)
  then show ?thesis
    by (auto simp: prepare_def case_prod_beta split: outcome.splits prod.splits)
qed

text \<open>
  C10. In every run of \<open>prepare\<close> that the model covers, when the \<open>pyproject.toml\<close> is a
  file of its own (not the file of a version constant and not a wrapper manifest): with
  \<open>bumpBot\<close> false the run leaves it as it was. Whenever the run changes it, \<open>bumpBot\<close> is
  true and the new content is the old one with the first version field replaced by
  \<open>version = "v"\<close>, \<open>v\<close> the next version of the bot, which is the bot version returned if
  the run returns. A run with \<open>bumpBot\<close> true that returns has written it so, and for a
  release type \<open>major\<close>, \<open>minor\<close> or \<open>patch\<close> the version field then reads \<open>v\<close>.
\<close>

theorem pyproject_follows_bot:
  assumes "pyprojectFile cfg = Some p"
    and "p \<noteq> botVersionFile cfg" and "p \<noteq> apiVersionFile cfg"
    and "p \<noteq> bot_package L" and "p \<noteq> api_package L"
    and "prepare L cfg ctx w = Some (out, w', log)"
  shows "(\<not> bumpBot (analyzeCommits (commits ctx)) \<longrightarrow> files w' p = files w p)
       \<and> (files w' p \<noteq> files w p
            \<longrightarrow> (\<exists>cb bv content.
                   bumpBot (analyzeCommits (commits ctx))
                 \<and> readPythonVersion w (botVersionFile cfg) = Some cb
                 \<and> calculateNextVersion cb (nextRelease_type ctx) = Some bv
                 \<and> files w p = Some content
                 \<and> files w' p
                     = Some (replace_first (pyproject_re content) content
                               (''version = '' @ [dquote] @ bv @ [dquote]))
                 \<and> (\<forall>r. out = Returns r \<longrightarrow> botVersion r = bv)))
       \<and> (\<forall>r content.
            bumpBot (analyzeCommits (commits ctx)) \<and> out = Returns r
            \<and> p \<noteq> [] \<and> files w p = Some content
            \<longrightarrow> files w' p
                  = Some (replace_first (pyproject_re content) content
                            (''version = '' @ [dquote] @ botVersion r @ [dquote]))
              \<and> (version_field content \<noteq> None
                   \<and> nextRelease_type ctx \<in> {''major'', ''minor'', ''patch''}
                 \<longrightarrow> version_field (the (files w' p)) = Some (botVersion r)))"
proof (intro conjI allI impI)
  let ?d = "analyzeCommits (commits ctx)"
  from prepare_world [OF assms(6,4,5)] obtain out1 w1 log1
    where upd: "prepare_updates cfg ctx w = Some (out1, w1, log1)"
      and world: "files w' p = files w1 p"
    by blast
  {
    assume "\<not> bumpBot ?d"
    with assms(3-5) show "files w' p = files w p"
      by (intro prepare_files [OF assms(6)]) auto
  next
    assume changed: "files w' p \<noteq> files w p"
    from upd show "\<exists>cb bv content.
        bumpBot ?d
      \<and> readPythonVersion w (botVersionFile cfg) = Some cb
      \<and> calculateNextVersion cb (nextRelease_type ctx) = Some bv
      \<and> files w p = Some content
      \<and> files w' p
          = Some (replace_first (pyproject_re content) content
                    (''version = '' @ [dquote] @ bv @ [dquote]))
      \<and> (\<forall>r. out = Returns r \<longrightarrow> botVersion r = bv)"
    proof (cases rule: prepare_updates_Some)
      case unreadable
      with world changed show ?thesis
        by simp
    next
      case (updated cb ca bv av log0 res)
      from update_files_pyproject_cases [OF assms(1-3), of ?d bv av w log0] updated(5) world
        changed
      obtain content where bot: "bumpBot ?d" and content: "files w p = Some content"
        and new: "files w' p
          = Some (replace_first (pyproject_re content) content
                    (''version = '' @ [dquote] @ bv @ [dquote]))"
        by auto
      have "botVersion r = bv" if "out = Returns r" for r
        using assms(6)
      proof (cases rule: prepare_Some)
        case (returned bv' av' w1' log1')
        with upd updated(6) that show ?thesis
          by (cases res) auto
      next
        case (thrown msg)
        with that show ?thesis
          by simp
      qed
      with bot content new updated(1,3) show ?thesis
        by auto
    qed
  next
    fix r content
    assume run: "bumpBot ?d \<and> out = Returns r \<and> p \<noteq> [] \<and> files w p = Some content"
    let ?new = "replace_first (pyproject_re content) content
                  (''version = '' @ [dquote] @ botVersion r @ [dquote])"
    from assms(6) run upd obtain bv av where out1: "out1 = Returns (bv, av)"
      and r: "botVersion r = bv"
      by (cases rule: prepare_Some) auto
    from upd out1 run obtain cb log0
      where calc: "calculateNextVersion cb (nextRelease_type ctx) = Some bv"
        and updates: "update_files cfg ?d bv av w log0 = (None, w1, log1)"
    proof (cases rule: prepare_updates_Some)
      case unreadable
      with out1 show ?thesis
        by simp
    next
      case (updated cb ca bv' av' log0 res)
      with out1 run that [of cb log0] show ?thesis
        by (cases res) auto
    qed
    have "files w1 p = Some ?new"
      using update_files_pyproject [OF assms(1) _ assms(2,3) _ _ updates] run r by simp
    with world show written: "files w' p = Some ?new"
      by simp
    assume field: "version_field content \<noteq> None
        \<and> nextRelease_type ctx \<in> {''major'', ''minor'', ''patch''}"
    then have "nextRelease_type ctx \<in> {''major'', ''minor'', ''patch''}"
      by (rule conjunct2)
    from calculateNextVersion_plain [OF this calc]
    have "bv \<noteq> []" and "list_all (\<lambda>c. \<not> is_quote c) bv" and "CHR ''$'' \<notin> set bv"
      by blast+
    with field have "version_field ?new = Some (botVersion r)"
      unfolding r by (intro pyproject_replaced_field) blast+
    with written show "version_field (the (files w' p)) = Some (botVersion r)"
      by simp
  }
qed

theorem pyproject_follows_bot_witness:
  "(\<exists>out w' log.
      prepare example_layout example_config
        \<lparr>commits = [\<lparr>message = ''fix(api): y''\<rparr>], nextRelease_type = ''patch''\<rparr>
        (example_world ''2.0.0'' ''1.5.2'' []) = Some (out, w', log)
    \<and> files w' ''pyproject.toml'' = Some (pyproject_file ''2.0.0''))
   \<and> (\<exists>w' log.
      prepare example_layout example_config
        \<lparr>commits = [\<lparr>message = ''feat(bot): x''\<rparr>], nextRelease_type = ''minor''\<rparr>
        (example_world ''2.0.0'' ''1.5.2'' [])
        = Some (Returns \<lparr>botVersion = ''2.1.0'', apiVersion = ''1.5.2'', version = ''2.1.0''\<rparr>,
                w', log)
    \<and> version_field (the (files w' ''pyproject.toml'')) = Some ''2.1.0'')"
proof -
  let ?w = "example_world ''2.0.0'' ''1.5.2'' []"
  let ?api = "\<lparr>commits = [\<lparr>message = ''fix(api): y''\<rparr>], nextRelease_type = ''patch''\<rparr>"
  let ?bot = "\<lparr>commits = [\<lparr>message = ''feat(bot): x''\<rparr>], nextRelease_type = ''minor''\<rparr>"
  let ?r = "\<lparr>botVersion = ''2.1.0'', apiVersion = ''1.5.2'', version = ''2.1.0''\<rparr>"
  have paths: "pyprojectFile example_config = Some ''pyproject.toml''"
    "''pyproject.toml'' \<noteq> botVersionFile example_config"
    "''pyproject.toml'' \<noteq> apiVersionFile example_config"
    "''pyproject.toml'' \<noteq> bot_package example_layout"
    "''pyproject.toml'' \<noteq> api_package example_layout"
    by (simp_all add: example_defs)
  have content: "files ?w ''pyproject.toml'' = Some (pyproject_file ''2.0.0'')"
    by (simp add: example_world_def)
  have field: "version_field (pyproject_file ''2.0.0'') \<noteq> None"
    by (simp add: version_field_def pyproject_file_def pattern_defs)
  have api_only: "\<not> bumpBot (analyzeCommits (commits ?api))"
    by (simp add: commit_defs)
  have bot: "bumpBot (analyzeCommits (commits ?bot))"
    by (simp add: commit_defs)
  have "map_option fst (prepare example_layout example_config ?api ?w)
      = Some (Returns \<lparr>botVersion = ''2.0.0'', apiVersion = ''1.5.3'', version = ''2.0.0''\<rparr>)"
    by (simp add: example_defs prepare_defs pattern_defs number_defs commit_defs sync_defs)
  then obtain out1 w1 log1
    where run1: "prepare example_layout example_config ?api ?w = Some (out1, w1, log1)"
    by auto
  have "\<not> bumpBot (analyzeCommits (commits ?api)) \<longrightarrow> files w1 ''pyproject.toml''
      = files ?w ''pyproject.toml''"
    using pyproject_follows_bot [OF paths run1] by (rule conjunct1)
  with api_only content have first: "files w1 ''pyproject.toml'' = Some (pyproject_file ''2.0.0'')"
    by simp
  have "map_option fst (prepare example_layout example_config ?bot ?w) = Some (Returns ?r)"
    by (simp add: example_defs prepare_defs pattern_defs number_defs commit_defs sync_defs)
  then obtain w2 log2
    where run2: "prepare example_layout example_config ?bot ?w = Some (Returns ?r, w2, log2)"
    by auto
  have run: "bumpBot (analyzeCommits (commits ?bot)) \<and> Returns ?r = Returns ?r
      \<and> ''pyproject.toml'' \<noteq> [] \<and> files ?w ''pyproject.toml'' = Some (pyproject_file ''2.0.0'')"
    using bot content by simp
  have release: "version_field (pyproject_file ''2.0.0'') \<noteq> None
      \<and> nextRelease_type ?bot \<in> {''major'', ''minor'', ''patch''}"
    using field by simp
  have "version_field (the (files w2 ''pyproject.toml'')) = Some (botVersion ?r)"
    using run release
    by (rule pyproject_follows_bot [OF paths run2, THEN conjunct2, THEN conjunct2,
          rule_format, THEN conjunct2, rule_format])
  then have "version_field (the (files w2 ''pyproject.toml'')) = Some ''2.1.0''"
    by simp
  with first run1 run2 show ?thesis
    by blast
qed

text \<open>
  C9. When the statements of \<open>prepare\<close> before the sync have run without an error (the
  version constants are updated) and the sync of the wrapper manifests then fails, \<open>prepare\<close>
  does not throw: it returns the versions computed, the last thing it logs is the warning, and
  the world it leaves differs from the world after the updates in the two \<open>package.json\<close>
  files at most, so no update is taken back.
\<close>

theorem sync_failure_is_a_warning:
  assumes "prepare_updates cfg ctx w = Some (Returns (bv, av), w1, log1)"
    and "\<not> fst (syncWrapperVersions L w1 bv av)"
  shows "prepare L cfg ctx w
           = Some (Returns \<lparr>botVersion = bv, apiVersion = av, version = bv\<rparr>,
                   snd (syncWrapperVersions L w1 bv av),
                   log1 @ [LogSyncing, WarnSyncFailed])
       \<and> (\<forall>q. q \<noteq> bot_package L \<and> q \<noteq> api_package L
              \<longrightarrow> files (snd (syncWrapperVersions L w1 bv av)) q = files w1 q)"
  using assms by (simp add: prepare_def case_prod_beta syncWrapperVersions_files)

theorem sync_failure_is_a_warning_witness:
  "\<exists>w' log.
     prepare example_layout example_config
       \<lparr>commits = [\<lparr>message = ''feat(bot): x''\<rparr>], nextRelease_type = ''minor''\<rparr>
       (example_world ''2.0.0'' ''1.5.2'' [''bot.json''])
     = Some (Returns \<lparr>botVersion = ''2.1.0'', apiVersion = ''1.5.2'', version = ''2.1.0''\<rparr>,
             w', log)
   \<and> last log = WarnSyncFailed
   \<and> files w' ''bot.py'' = Some (version_file ''2.1.0'')"
proof -
  let ?w = "example_world ''2.0.0'' ''1.5.2'' [''bot.json'']"
  let ?ctx = "\<lparr>commits = [\<lparr>message = ''feat(bot): x''\<rparr>], nextRelease_type = ''minor''\<rparr>"
  let ?u = "prepare_updates example_config ?ctx ?w"
  have "map_option fst ?u = Some (Returns (''2.1.0'', ''1.5.2''))"
    by (simp add: example_defs prepare_defs pattern_defs number_defs commit_defs)
  then obtain w1 log1 where updated: "?u = Some (Returns (''2.1.0'', ''1.5.2''), w1, log1)"
    by auto
  then have w1: "w1 = fst (snd (the ?u))"
    by simp
  have "\<not> fst (syncWrapperVersions example_layout (fst (snd (the ?u))) ''2.1.0'' ''1.5.2'')"
    by (simp add: example_defs prepare_defs pattern_defs number_defs commit_defs sync_defs)
  then have failed: "\<not> fst (syncWrapperVersions example_layout w1 ''2.1.0'' ''1.5.2'')"
    unfolding w1 .
  have "files (fst (snd (the ?u))) ''bot.py'' = Some (version_file ''2.1.0'')"
    by (simp add: example_defs prepare_defs pattern_defs number_defs commit_defs)
  then have written: "files w1 ''bot.py'' = Some (version_file ''2.1.0'')"
    unfolding w1 .
  have other: "''bot.py'' \<noteq> bot_package example_layout \<and> ''bot.py'' \<noteq> api_package example_layout"
    by (simp add: example_layout_def)
  from sync_failure_is_a_warning [OF updated failed] written other show ?thesis
    by simp
qed

text \<open>
  C8 claims that a current version that does not match \<open>\d+\.\d+\.\d+\<close> is a ParseError.
  The code checks no shape: \<open>1.2.3-beta\<close> is read as the current version, and with no
  commit (so that both components are bumped) \<open>prepare\<close> gives it to
  \<open>calculateNextVersion\<close> and returns \<open>1.2.NaN\<close> for a patch release.
\<close>

theorem suffixed_version_counterexample:
  "\<not> canonical ''1.2.3-beta''
   \<and> readPythonVersion (example_world ''1.2.3-beta'' ''1.5.2'' []) ''bot.py''
       = Some ''1.2.3-beta''
   \<and> map_option fst
        (prepare example_layout example_config
           \<lparr>commits = [], nextRelease_type = ''patch''\<rparr>
           (example_world ''1.2.3-beta'' ''1.5.2'' []))
       = Some (Returns \<lparr>botVersion = ''1.2.NaN'', apiVersion = ''1.5.3'',
                        version = ''1.2.NaN''\<rparr>)"
proof (intro conjI)
  show "\<not> canonical ''1.2.3-beta''"
    by (simp add: canonical_def is_digit_def)
  show "readPythonVersion (example_world ''1.2.3-beta'' ''1.5.2'' []) ''bot.py''
      = Some ''1.2.3-beta''"
    by (simp add: example_defs readPythonVersion_def readFileSync_def pattern_defs)
  show "map_option fst
        (prepare example_layout example_config
           \<lparr>commits = [], nextRelease_type = ''patch''\<rparr>
           (example_world ''1.2.3-beta'' ''1.5.2'' []))
      = Some (Returns \<lparr>botVersion = ''1.2.NaN'', apiVersion = ''1.5.3'',
                       version = ''1.2.NaN''\<rparr>)"
    by (simp add: example_defs prepare_defs pattern_defs number_defs commit_defs sync_defs)
qed

lemma search_assign_at_start:
  assumes "assign_at key (m @ a) = Some (g, a)" and "m \<noteq> []"
  shows "search_assign False key bol (m @ a) = Some ([], m, g, a)"
proof -
  from assms(2) obtain c cs where "m @ a = c # cs"
    by (cases m) auto
  moreover have "take (length (m @ a) - length a) (m @ a) = m"
    by simp
  ultimately show ?thesis
    using assms(1) by simp
qed

text \<open>
  C8, amended. \<open>readPythonVersion\<close> checks no shape: for every string \<open>g\<close> that is not empty
  and holds no quote, of the form \<open>\d+\.\d+\.\d+\<close> or not, a file that starts with
  \<open>__version__ = "g"\<close> is read as \<open>g\<close>, and not as an error.
\<close>

theorem readPythonVersion_any_shape:
  assumes "g \<noteq> []" and "list_all (\<lambda>c. \<not> is_quote c) g"
    and "files w p = Some (''__version__ = '' @ [dquote] @ g @ [dquote] @ rest)"
  shows "readPythonVersion w p = Some g"
proof -
  have "assign_at ''__version__'' (''__version__'' @ '' = '' @ [dquote] @ g @ [dquote] @ rest)
      = Some (g, rest)"
    using assms(1,2) by (rule assign_at_template)
  then have "search_assign False ''__version__'' True
        ((''__version__'' @ '' = '' @ [dquote] @ g @ [dquote]) @ rest)
      = Some ([], ''__version__'' @ '' = '' @ [dquote] @ g @ [dquote], g, rest)"
    by (intro search_assign_at_start) simp_all
  with assms(3) show ?thesis
    by (simp add: readPythonVersion_def readFileSync_def version_re_def)
qed

theorem readPythonVersion_any_shape_witness:
  "\<not> canonical ''2.0.0-rc.1+build5''
   \<and> readPythonVersion (example_world ''2.0.0-rc.1+build5'' ''1.5.2'' []) ''bot.py''
       = Some ''2.0.0-rc.1+build5''"
proof -
  have "\<not> canonical ''2.0.0-rc.1+build5''"
    by (simp add: canonical_def is_digit_def)
  moreover have "files (example_world ''2.0.0-rc.1+build5'' ''1.5.2'' []) ''bot.py''
      = Some (''__version__ = '' @ [dquote] @ ''2.0.0-rc.1+build5'' @ [dquote] @ [CHR 0x0A])"
    by (simp add: example_world_def version_file_def)
  moreover have "list_all (\<lambda>c. \<not> is_quote c) ''2.0.0-rc.1+build5''"
    by (simp add: is_quote_def dquote_def squote_def)
  ultimately show ?thesis
    using readPythonVersion_any_shape
      [of "''2.0.0-rc.1+build5''" "example_world ''2.0.0-rc.1+build5'' ''1.5.2'' []" "''bot.py''"
        "[CHR 0x0A]"]
    by simp
qed

end
